theory Spec2Isabelle
  imports Main "HOL-Library.AList" "HOL-Library.Multiset"
begin

section \<open>Type descriptors (the reflect adapter)\<close>

text \<open>
  The generator in \<^verbatim>\<open>gen\<close> only ever asks a \<^verbatim>\<open>reflect.Value\<close> for its kind and
  its type, and a \<^verbatim>\<open>reflect.Type\<close> for \<^verbatim>\<open>Kind\<close>, \<^verbatim>\<open>Size\<close>, \<^verbatim>\<open>Elem\<close>, \<^verbatim>\<open>Len\<close>,
  \<^verbatim>\<open>NumField\<close>/\<^verbatim>\<open>Field\<close>, \<^verbatim>\<open>PkgPath\<close> and \<^verbatim>\<open>Name\<close>. A type descriptor is a record of
  exactly these answers. Go types may refer to themselves, so descriptors live in a
  table (\<open>tenv\<close>) and refer to each other by index; an index outside the table
  answers like the zero \<^verbatim>\<open>reflect.Value\<close> (kind \<^verbatim>\<open>Invalid\<close>).
\<close>

datatype kind =
    KInvalid | KBool
  | KInt | KInt8 | KInt16 | KInt32 | KInt64
  | KUint | KUint8 | KUint16 | KUint32 | KUint64 | KUintptr
  | KFloat32 | KFloat64 | KComplex64 | KComplex128
  | KArray | KChan | KFunc | KInterface | KMap | KPtr | KSlice | KString | KStruct
  | KUnsafePointer

record structField =
  sfName :: string
  sfType :: nat
  sfOffset :: nat

record rtype =
  tKind :: kind
  tSize :: nat
  tElem :: nat
  tLen :: nat
  tFields :: "structField list"
  tPkgPath :: string
  tName :: string

type_synonym tenv = "rtype list"

definition zeroValue :: rtype where
  "zeroValue = \<lparr>tKind = KInvalid, tSize = 0, tElem = 0, tLen = 0, tFields = [],
     tPkgPath = [], tName = []\<rparr>"

definition typeOf :: "tenv \<Rightarrow> nat \<Rightarrow> rtype" where
  "typeOf env t = (if t < length env then env ! t else zeroValue)"

section \<open>Merge plans\<close>

text \<open>
  A \<^verbatim>\<open>mergeF\<close> closure is represented by the data it closes over. \<open>PPrim\<close> is one of
  the primitive closures of \<^verbatim>\<open>gen\<close>; \<open>PArrayPrim\<close>/\<open>PSlicePrim\<close> are the specialised
  loops of \<^verbatim>\<open>genArray\<close>/\<^verbatim>\<open>genSlice\<close>; \<open>PStruct\<close> carries the per-kind offset tables
  (in the order the closure of \<^verbatim>\<open>genStruct\<close> walks them) and \<^verbatim>\<open>offsetFs\<close>; \<open>PThunk pf\<close>
  is \<^verbatim>\<open>func(l, r) { (*pf)(l, r) }\<close>; \<open>PMap\<close> holds the value closure \<^verbatim>\<open>f\<close> (which
  \<^verbatim>\<open>genMap\<close> does not test for nil), \<^verbatim>\<open>valNeedsIndir\<close> and the size of the value type.
  A nil \<^verbatim>\<open>mergeF\<close> is \<open>None\<close>.
\<close>

datatype plan =
    PPrim kind
  | PPtr plan
  | PArrayPrim kind nat nat
  | PArray plan nat nat
  | PSlicePrim kind nat
  | PSlice plan nat
  | PStruct "(kind \<times> nat list) list" "(nat \<times> plan) list"
  | PThunk nat
  | PMap "plan option" bool nat

datatype gerror =
    ESkipKind kind
  | EInterface | EChan | EFunc | EString | EUnsafePointer | EInvalid
  | EMapDisabled
  | EEmptyFieldName
  | ESkipMyLevel
  | ESkipNextLevel
  | ENotPointer
  | ENotSinglePointer
  | EOption string

text \<open>
  The generator state shared by all sub-generators: \<^verbatim>\<open>structFs\<close> maps a name to a
  pointer \<^verbatim>\<open>*mergeF\<close>; the pointers are indices into \<open>slots\<close>, and \<^verbatim>\<open>new(mergeF)\<close>
  appends a nil slot.
\<close>

record gstate =
  structFs :: "string \<rightharpoonup> nat"
  slots :: "plan option list"

text \<open>
  Results: \<open>None\<close> means the recursion did not return within the fuel given;
  \<open>Some (Inl e)\<close> is the Go error return; \<open>Some (Inr x)\<close> is a normal return.
\<close>

type_synonym 'a gres = "(gerror + 'a) option"

type_synonym genrec = "string list \<Rightarrow> rtype \<Rightarrow> gstate \<Rightarrow> (plan option \<times> gstate) gres"

definition gbind :: "'a gres \<Rightarrow> ('a \<Rightarrow> 'b gres) \<Rightarrow> 'b gres" where
  "gbind m k = (case m of None \<Rightarrow> None | Some (Inl e) \<Rightarrow> Some (Inl e) | Some (Inr x) \<Rightarrow> k x)"

section \<open>The skip parser of genStruct\<close>

fun IndexByte :: "string \<Rightarrow> char \<Rightarrow> int" where
  "IndexByte [] c = - 1"
| "IndexByte (x # xs) c =
     (if x = c then 0
      else (let i = IndexByte xs c in if i = - 1 then - 1 else i + 1))"

text \<open>\<^verbatim>\<open>skipNextLevel[field] = append(skipNextLevel[field], subFields)\<close>\<close>

fun appendNext :: "string \<Rightarrow> string \<Rightarrow> (string \<times> string list) list \<Rightarrow> (string \<times> string list) list" where
  "appendNext field sub [] = [(field, [sub])]"
| "appendNext field sub ((k, v) # m) =
     (if k = field then (k, v @ [sub]) # m else (k, v) # appendNext field sub m)"

text \<open>\<^verbatim>\<open>skipNextLevel[sf.Name]\<close>: a missing key reads as the nil slice.\<close>

definition lookupNext :: "string \<Rightarrow> (string \<times> string list) list \<Rightarrow> string list" where
  "lookupNext name m = (case map_of m name of None \<Rightarrow> [] | Some v \<Rightarrow> v)"

definition deleteNext :: "string \<Rightarrow> (string \<times> string list) list \<Rightarrow> (string \<times> string list) list" where
  "deleteNext name m = filter (\<lambda>kv. fst kv \<noteq> name) m"

text \<open>The first loop of \<^verbatim>\<open>genStruct\<close>, over \<^verbatim>\<open>g.skips\<close>.\<close>

fun parseSkips :: "string list \<Rightarrow> string list \<Rightarrow> (string \<times> string list) list
    \<Rightarrow> gerror + (string list \<times> (string \<times> string list) list)" where
  "parseSkips [] skipMy skipNext = Inr (skipMy, skipNext)"
| "parseSkips (skip # rest) skipMy skipNext =
     (let idx = IndexByte skip CHR ''>'' in
      if idx = - 1 then parseSkips rest (List.insert skip skipMy) skipNext
      else if idx = 0 \<or> int (length skip) < idx + 1 then Inl EEmptyFieldName
      else parseSkips rest skipMy
             (appendNext (take (nat idx) skip) (drop (nat idx + 1) skip) skipNext))"

section \<open>The generator\<close>

text \<open>The kinds that \<^verbatim>\<open>genArray\<close>, \<^verbatim>\<open>genSlice\<close> and \<^verbatim>\<open>genStruct\<close> special-case
  (\<^verbatim>\<open>Uintptr\<close> is not among them).\<close>

definition fastKind :: "kind \<Rightarrow> bool" where
  "fastKind k = (k \<in> {KBool, KInt, KInt8, KInt16, KInt32, KInt64,
     KUint, KUint8, KUint16, KUint32, KUint64,
     KFloat32, KFloat64, KComplex64, KComplex128})"


definition genArray :: "(rtype \<Rightarrow> gstate \<Rightarrow> (plan option \<times> gstate) gres) \<Rightarrow> tenv \<Rightarrow> rtype \<Rightarrow> gstate
    \<Rightarrow> (plan option \<times> gstate) gres" where
  "genArray rec env v st =
     (let len = tLen v; et = typeOf env (tElem v); size = tSize et; end = len * size in
      if fastKind (tKind et) then Some (Inr (Some (PArrayPrim (tKind et) end size), st))
      else gbind (rec et st) (\<lambda>(f, st').
             case f of None \<Rightarrow> Some (Inr (None, st'))
             | Some f' \<Rightarrow> Some (Inr (Some (PArray f' end size), st'))))"

definition genSlice :: "(rtype \<Rightarrow> gstate \<Rightarrow> (plan option \<times> gstate) gres) \<Rightarrow> tenv \<Rightarrow> rtype \<Rightarrow> gstate
    \<Rightarrow> (plan option \<times> gstate) gres" where
  "genSlice rec env v st =
     (let et = typeOf env (tElem v); size = tSize et in
      if fastKind (tKind et) then Some (Inr (Some (PSlicePrim (tKind et) size), st))
      else gbind (rec et st) (\<lambda>(f, st').
             case f of None \<Rightarrow> Some (Inr (None, st'))
             | Some f' \<Rightarrow> Some (Inr (Some (PSlice f' size), st'))))"

definition genMap :: "(rtype \<Rightarrow> gstate \<Rightarrow> (plan option \<times> gstate) gres) \<Rightarrow> tenv \<Rightarrow> rtype \<Rightarrow> gstate
    \<Rightarrow> (plan option \<times> gstate) gres" where
  "genMap rec env v st =
     (let et = typeOf env (tElem v) in
      gbind (rec et st) (\<lambda>(f, st').
        let etk = tKind et; valNeedsIndir = (etk = KMap \<or> etk = KPtr) in
        Some (Inr (Some (PMap f valNeedsIndir (tSize et)), st'))))"

text \<open>The accumulators of the field loop of \<^verbatim>\<open>genStruct\<close>.\<close>

record sacc =
  skipMyLevel :: "string list"
  skipNextLevel :: "(string \<times> string list) list"
  prims :: "(kind \<times> nat list) list"
  offsetFs :: "(nat \<times> plan) list"
  added :: nat

definition emptyPrims :: "(kind \<times> nat list) list" where
  "emptyPrims = map (\<lambda>k. (k, []))
     [KBool, KInt, KInt8, KInt16, KInt32, KInt64,
      KUint, KUint8, KUint16, KUint32, KUint64,
      KFloat32, KFloat64, KComplex64, KComplex128]"

definition appendOffset :: "kind \<Rightarrow> nat \<Rightarrow> (kind \<times> nat list) list \<Rightarrow> (kind \<times> nat list) list" where
  "appendOffset k off tbl = map (\<lambda>(k', offs). if k' = k then (k', offs @ [off]) else (k', offs)) tbl"

fun structFields :: "genrec \<Rightarrow> tenv \<Rightarrow> structField list \<Rightarrow> sacc \<Rightarrow> gstate \<Rightarrow> (sacc \<times> gstate) gres" where
  "structFields rec env [] a st = Some (Inr (a, st))"
| "structFields rec env (sf # sfs) a st =
     (if sfName sf \<in> set (skipMyLevel a)
      then structFields rec env sfs (a\<lparr>skipMyLevel := removeAll (sfName sf) (skipMyLevel a)\<rparr>) st
      else let ft = typeOf env (sfType sf) in
        if fastKind (tKind ft)
        then structFields rec env sfs
               (a\<lparr>prims := appendOffset (tKind ft) (sfOffset sf) (prims a), added := added a + 1\<rparr>) st
        else
          (case rec (lookupNext (sfName sf) (skipNextLevel a)) ft st of
             None \<Rightarrow> None
           | Some (Inl e) \<Rightarrow> Some (Inl e)
           | Some (Inr (f, st')) \<Rightarrow>
               (let a' = a\<lparr>skipNextLevel := deleteNext (sfName sf) (skipNextLevel a)\<rparr> in
                case f of
                  None \<Rightarrow> structFields rec env sfs a' st'
                | Some f' \<Rightarrow> structFields rec env sfs
                    (a'\<lparr>offsetFs := offsetFs a' @ [(sfOffset sf, f')], added := added a' + 1\<rparr>) st')))"

definition genStruct :: "genrec \<Rightarrow> tenv \<Rightarrow> string list \<Rightarrow> rtype \<Rightarrow> gstate \<Rightarrow> (plan option \<times> gstate) gres" where
  "genStruct rec env skips v st =
     (case parseSkips skips [] [] of
        Inl e \<Rightarrow> Some (Inl e)
      | Inr (skipMy, skipNext) \<Rightarrow>
          gbind (structFields rec env (tFields v)
                   \<lparr>skipMyLevel = skipMy, skipNextLevel = skipNext, prims = emptyPrims,
                    offsetFs = [], added = 0\<rparr> st)
            (\<lambda>(a, st').
               if skipMyLevel a \<noteq> [] then Some (Inl ESkipMyLevel)
               else if skipNextLevel a \<noteq> [] then Some (Inl ESkipNextLevel)
               else if added a = 0 then Some (Inr (None, st'))
               else Some (Inr (Some (PStruct (prims a) (offsetFs a)), st'))))"

text \<open>
  \<^verbatim>\<open>gen\<close>, the entry point of all recursion. The first argument is the fuel: Go's
  recursion has no bound of its own, so a call that needs more nested calls than the
  fuel allows yields \<open>None\<close>.
\<close>

primrec gen :: "nat \<Rightarrow> tenv \<Rightarrow> bool \<Rightarrow> string list \<Rightarrow> rtype \<Rightarrow> gstate \<Rightarrow> (plan option \<times> gstate) gres" where
  "gen 0 env useMap skips v st = None"
| "gen (Suc n) env useMap skips v st =
     (if skips \<noteq> [] \<and> tKind v \<notin> {KSlice, KStruct, KArray, KPtr}
      then Some (Inl (ESkipKind (tKind v)))
      else case tKind v of
        KInterface \<Rightarrow> Some (Inl EInterface)
      | KChan \<Rightarrow> Some (Inl EChan)
      | KFunc \<Rightarrow> Some (Inl EFunc)
      | KString \<Rightarrow> Some (Inl EString)
      | KUnsafePointer \<Rightarrow> Some (Inl EUnsafePointer)
      | KInvalid \<Rightarrow> Some (Inl EInvalid)
      | KPtr \<Rightarrow>
          gbind (gen n env useMap skips (typeOf env (tElem v)) st) (\<lambda>(f, st').
            case f of None \<Rightarrow> Some (Inr (None, st'))
            | Some f' \<Rightarrow> Some (Inr (Some (PPtr f'), st')))
      | KArray \<Rightarrow> genArray (gen n env useMap skips) env v st
      | KSlice \<Rightarrow> genSlice (gen n env useMap skips) env v st
      | KStruct \<Rightarrow>
          if skips \<noteq> [] then genStruct (gen n env useMap) env skips v st
          else
            (let name = tPkgPath v @ ''.'' @ tName v in
             case structFs st name of
               Some pf \<Rightarrow> Some (Inr (Some (PThunk pf), st))
             | None \<Rightarrow>
                 (let pf = length (slots st);
                      st1 = st\<lparr>structFs := (structFs st)(name \<mapsto> pf), slots := slots st @ [None]\<rparr>
                  in gbind (genStruct (gen n env useMap) env skips v st1) (\<lambda>(f, st2).
                       Some (Inr (f, st2\<lparr>slots := (slots st2)[pf := f]\<rparr>)))))
      | KMap \<Rightarrow>
          if \<not> useMap then Some (Inl EMapDisabled)
          else genMap (gen n env useMap skips) env v st
      | k \<Rightarrow> Some (Inr (Some (PPrim k), st)))"

section \<open>The public entry point\<close>

record Config =
  skips :: "string list"
  unsafeMap :: bool

type_synonym option_fn = "Config \<Rightarrow> gerror + Config"

definition SkipFields :: "string list \<Rightarrow> option_fn" where
  "SkipFields flds c = Inr (c\<lparr>skips := skips c @ flds\<rparr>)"

definition WithSlowerMapsUnsafely :: option_fn where
  "WithSlowerMapsUnsafely c = Inr (c\<lparr>unsafeMap := True\<rparr>)"

definition SkipField :: "string \<Rightarrow> option_fn" where
  "SkipField field c = Inr (c\<lparr>skips := skips c @ [field]\<rparr>)"

fun applyOptions :: "option_fn list \<Rightarrow> Config \<Rightarrow> gerror + Config" where
  "applyOptions [] c = Inr c"
| "applyOptions (opt # options) c =
     (case opt c of Inl err \<Rightarrow> Inl err | Inr c' \<Rightarrow> applyOptions options c')"

text \<open>
  An \<^verbatim>\<open>interface{}\<close> value is the pair of words of \<^verbatim>\<open>ifaceWords\<close>: the dynamic type
  (\<open>None\<close> for the nil interface) and the data word (address \<open>0\<close> is nil).
\<close>

record iface =
  ityp :: "nat option"
  idata :: nat

text \<open>
  The closure returned by \<^verbatim>\<open>Gen\<close> captures \<^verbatim>\<open>iw.typ\<close>, the generated \<^verbatim>\<open>f\<close> (possibly
  nil) and, through the thunks, the slots filled during generation.
\<close>

record merger =
  mTyp :: "nat option"
  mF :: "plan option"
  mSlots :: "plan option list"

definition valueKind :: "tenv \<Rightarrow> iface \<Rightarrow> kind" where
  "valueKind env i = (case ityp i of None \<Rightarrow> KInvalid | Some t \<Rightarrow> tKind (typeOf env t))"

text \<open>\<^verbatim>\<open>reflect.Indirect\<close> of a pointer value: the zero Value behind a nil pointer.\<close>

definition Indirect :: "tenv \<Rightarrow> iface \<Rightarrow> rtype" where
  "Indirect env i =
     (case ityp i of None \<Rightarrow> zeroValue
      | Some t \<Rightarrow> if idata i = 0 then zeroValue else typeOf env (tElem (typeOf env t)))"

definition Gen :: "nat \<Rightarrow> tenv \<Rightarrow> iface \<Rightarrow> option_fn list \<Rightarrow> merger gres" where
  "Gen n env i options =
     (case applyOptions options \<lparr>skips = [], unsafeMap = False\<rparr> of
        Inl err \<Rightarrow> Some (Inl err)
      | Inr c \<Rightarrow>
          if valueKind env i \<noteq> KPtr then Some (Inl ENotPointer)
          else let v = Indirect env i in
            if tKind v = KPtr then Some (Inl ENotSinglePointer)
            else gbind (gen n env (unsafeMap c) (skips c) v \<lparr>structFs = Map.empty, slots = []\<rparr>)
                   (\<lambda>(f, st). Some (Inr \<lparr>mTyp = ityp i, mF = f, mSlots = slots st\<rparr>)))"

section \<open>Memory\<close>

text \<open>
  The closures work on \<^verbatim>\<open>unsafe.Pointer\<close>s: a memory of cells indexed by address,
  address \<open>0\<close> being nil. A cell holds one scalar: a bool, a number (integers by value,
  floats by bit pattern), a complex pair, a pointer word, or a slice header
  (\<^verbatim>\<open>reflect.SliceHeader\<close>: Data, Len, Cap). A scalar is one cell, at its first address,
  whatever its width: the memory describes accesses at the type a value was written
  with, and an access of another width (through a closure generated for another type)
  is followed only as far as the whole cell. Reading an address that holds no cell, or a
  cell of another shape than the access expects, is a fault and ends the call like a
  panic. Map objects live beside the memory, by the address a map word points to; an
  entry's key is the list of the key's cells and its value is the image of a value of
  the map's element type (offset and cell). \<open>brk\<close> is the next unused address, where
  \<^verbatim>\<open>reflect\<close> puts the copies it makes.
\<close>

datatype cell =
    CBool bool
  | CNum int
  | CCplx int int
  | CPtr nat
  | CSlice nat nat nat

type_synonym mkey = "cell list"
type_synonym chunk = "(nat \<times> cell) list"

record heap =
  mem :: "nat \<rightharpoonup> cell"
  maps :: "nat \<rightharpoonup> (mkey \<times> chunk) list"
  brk :: nat

datatype 'a xres = Return 'a | Panic | Diverge

definition fieldByOffset :: "nat \<Rightarrow> nat \<Rightarrow> nat" where
  "fieldByOffset u o' = u + o'"

definition store :: "nat \<Rightarrow> cell \<Rightarrow> heap \<Rightarrow> heap xres" where
  "store a c h = (if a \<in> dom (mem h) then Return (h\<lparr>mem := (mem h)(a \<mapsto> c)\<rparr>) else Panic)"

section \<open>Primitive combiners\<close>

text \<open>
  Integer addition wraps at the width of the kind (\<^verbatim>\<open>int\<close>, \<^verbatim>\<open>uint\<close> and \<^verbatim>\<open>uintptr\<close>
  taken as 64 bits wide). Floating-point addition is a parameter of the machine; the
  one of amd64 is \<open>stdF\<close> below.
\<close>

record fops =
  fadd32 :: "int \<Rightarrow> int \<Rightarrow> int"
  fadd64 :: "int \<Rightarrow> int \<Rightarrow> int"

definition wrapU :: "nat \<Rightarrow> int \<Rightarrow> int" where
  "wrapU w x = x mod 2 ^ w"

definition wrapS :: "nat \<Rightarrow> int \<Rightarrow> int" where
  "wrapS w x = (x + 2 ^ (w - 1)) mod 2 ^ w - 2 ^ (w - 1)"

fun addNum :: "fops \<Rightarrow> kind \<Rightarrow> int \<Rightarrow> int \<Rightarrow> int option" where
  "addNum F KInt a b = Some (wrapS 64 (a + b))"
| "addNum F KInt8 a b = Some (wrapS 8 (a + b))"
| "addNum F KInt16 a b = Some (wrapS 16 (a + b))"
| "addNum F KInt32 a b = Some (wrapS 32 (a + b))"
| "addNum F KInt64 a b = Some (wrapS 64 (a + b))"
| "addNum F KUint a b = Some (wrapU 64 (a + b))"
| "addNum F KUint8 a b = Some (wrapU 8 (a + b))"
| "addNum F KUint16 a b = Some (wrapU 16 (a + b))"
| "addNum F KUint32 a b = Some (wrapU 32 (a + b))"
| "addNum F KUint64 a b = Some (wrapU 64 (a + b))"
| "addNum F KUintptr a b = Some (wrapU 64 (a + b))"
| "addNum F KFloat32 a b = Some (fadd32 F a b)"
| "addNum F KFloat64 a b = Some (fadd64 F a b)"
| "addNum F _ a b = None"

text \<open>
  \<^verbatim>\<open>*l += *r\<close> on two cells under a numeric kind \<open>k\<close>; a complex number adds by
  components.
\<close>

definition combine :: "fops \<Rightarrow> kind \<Rightarrow> cell \<Rightarrow> cell \<Rightarrow> cell option" where
  "combine F k cl cr =
     (case (k, cl, cr) of
        (KComplex64, CCplx a1 a2, CCplx b1 b2) \<Rightarrow> Some (CCplx (fadd32 F a1 b1) (fadd32 F a2 b2))
      | (KComplex128, CCplx a1 a2, CCplx b1 b2) \<Rightarrow> Some (CCplx (fadd64 F a1 b1) (fadd64 F a2 b2))
      | (_, CNum a, CNum b) \<Rightarrow> map_option CNum (addNum F k a b)
      | _ \<Rightarrow> None)"

text \<open>
  The primitive closures: \<^verbatim>\<open>if *(*bool)(r) { *(*bool)(l) = true }\<close> for bool (the left
  is only written, and only when the right is true), \<^verbatim>\<open>*l += *r\<close> for the numbers.
\<close>

definition primMerge :: "fops \<Rightarrow> kind \<Rightarrow> nat \<Rightarrow> nat \<Rightarrow> heap \<Rightarrow> heap xres" where
  "primMerge F k l r h =
     (if k = KBool then
        (case mem h r of
           Some (CBool b) \<Rightarrow> if b then store l (CBool True) h else Return h
         | _ \<Rightarrow> Panic)
      else
        (case (mem h l, mem h r) of
           (Some cl, Some cr) \<Rightarrow>
             (case combine F k cl cr of None \<Rightarrow> Panic | Some c \<Rightarrow> store l c h)
         | _ \<Rightarrow> Panic))"

section \<open>Floating-point addition\<close>

text \<open>
  A \<^verbatim>\<open>float32\<close> or \<^verbatim>\<open>float64\<close> is held as its bit pattern in the IEEE 754 binary format
  with \<open>e\<close> exponent bits and \<open>m\<close> fraction bits (8 and 23, 11 and 52). \<open>fpAdd\<close> is the
  addition that the instructions \<^verbatim>\<open>ADDSS\<close> and \<^verbatim>\<open>ADDSD\<close> of amd64 perform, the left side
  of \<^verbatim>\<open>+=\<close> being the first operand: the exact sum, counted in units of the least
  subnormal, is rounded to the nearest pattern, ties to even, and to infinity beyond the
  largest finite value; if an operand is a NaN the result is the first NaN operand with
  its quiet bit set; the sum of the two infinities is the default NaN (sign bit set).
\<close>

fun bitLen :: "nat \<Rightarrow> nat" where
  "bitLen n = (if n = 0 then 0 else bitLen (n div 2) + 1)"

declare bitLen.simps [simp del]

definition fpExp :: "nat \<Rightarrow> nat \<Rightarrow> int \<Rightarrow> int" where
  "fpExp e m b = (b div 2 ^ m) mod 2 ^ e"

definition fpFrac :: "nat \<Rightarrow> int \<Rightarrow> int" where
  "fpFrac m b = b mod 2 ^ m"

definition fpNeg :: "nat \<Rightarrow> nat \<Rightarrow> int \<Rightarrow> bool" where
  "fpNeg e m b = ((b div 2 ^ (e + m)) mod 2 = 1)"

definition fpNaN :: "nat \<Rightarrow> nat \<Rightarrow> int \<Rightarrow> bool" where
  "fpNaN e m b = (fpExp e m b = 2 ^ e - 1 \<and> fpFrac m b \<noteq> 0)"

definition fpInf :: "nat \<Rightarrow> nat \<Rightarrow> int \<Rightarrow> bool" where
  "fpInf e m b = (fpExp e m b = 2 ^ e - 1 \<and> fpFrac m b = 0)"

text \<open>The pattern of \<open>+\<infinity>\<close>, and the magnitude and the value of a finite pattern in
  units of the least subnormal.\<close>

definition fpInfinity :: "nat \<Rightarrow> nat \<Rightarrow> int" where
  "fpInfinity e m = (2 ^ e - 1) * 2 ^ m"

definition fpMag :: "nat \<Rightarrow> nat \<Rightarrow> int \<Rightarrow> int" where
  "fpMag e m b =
     (if fpExp e m b = 0 then fpFrac m b
      else (2 ^ m + fpFrac m b) * 2 ^ nat (fpExp e m b - 1))"

definition fpVal :: "nat \<Rightarrow> nat \<Rightarrow> int \<Rightarrow> int" where
  "fpVal e m b = (if fpNeg e m b then - fpMag e m b else fpMag e m b)"

definition fpPack :: "nat \<Rightarrow> nat \<Rightarrow> bool \<Rightarrow> int \<Rightarrow> int" where
  "fpPack e m neg p = (if neg then 2 ^ (e + m) + p else p)"

text \<open>
  Rounding a magnitude \<open>a\<close> to a pattern: \<open>k\<close> low bits are dropped so that at most
  \<open>m + 1\<close> remain; the exponent field is \<open>k + 1\<close> when the leading bit is set, so the
  pattern is \<open>k * 2 ^ m\<close> plus the rounded quotient, a carry out of the quotient moving
  into the exponent field.
\<close>

definition fpRound :: "nat \<Rightarrow> nat \<Rightarrow> int \<Rightarrow> int" where
  "fpRound e m a =
     (let k = bitLen (nat a) - (m + 1);
          q = a div 2 ^ k;
          r = a mod 2 ^ k;
          q' = (if 2 ^ k < 2 * r \<or> (2 * r = 2 ^ k \<and> odd q) then q + 1 else q);
          p = int k * 2 ^ m + q'
      in if fpInfinity e m \<le> p then fpInfinity e m else p)"

definition fpQuiet :: "nat \<Rightarrow> int \<Rightarrow> int" where
  "fpQuiet m a = (if (a div 2 ^ (m - 1)) mod 2 = 1 then a else a + 2 ^ (m - 1))"

definition fpAdd :: "nat \<Rightarrow> nat \<Rightarrow> int \<Rightarrow> int \<Rightarrow> int" where
  "fpAdd e m x y =
     (let a = x mod 2 ^ (e + m + 1); b = y mod 2 ^ (e + m + 1) in
      if fpNaN e m a then fpQuiet m a
      else if fpNaN e m b then fpQuiet m b
      else if fpInf e m a \<and> fpInf e m b \<and> fpNeg e m a \<noteq> fpNeg e m b
        then fpPack e m True (fpInfinity e m + 2 ^ (m - 1))
      else if fpInf e m a then fpPack e m (fpNeg e m a) (fpInfinity e m)
      else if fpInf e m b then fpPack e m (fpNeg e m b) (fpInfinity e m)
      else let s = fpVal e m a + fpVal e m b in
        if s = 0 then (if fpNeg e m a \<and> fpNeg e m b then 2 ^ (e + m) else 0)
        else fpPack e m (s < 0) (fpRound e m \<bar>s\<bar>))"

definition stdF :: fops where
  "stdF = \<lparr>fadd32 = fpAdd 8 23, fadd64 = fpAdd 11 52\<rparr>"

section \<open>Loops\<close>

text \<open>
  \<^verbatim>\<open>for offset := uintptr(0); offset < end; offset += size { body }\<close>. The generator
  only builds loops with \<open>end\<close> a multiple of \<open>size\<close>, so \<open>size = 0\<close> comes with
  \<open>end = 0\<close>; a loop that could not advance is \<open>Diverge\<close>.
\<close>

function forOffsets :: "(nat \<Rightarrow> heap \<Rightarrow> heap xres) \<Rightarrow> nat \<Rightarrow> nat \<Rightarrow> nat \<Rightarrow> heap \<Rightarrow> heap xres" where
  "forOffsets body offset end sz h =
     (if offset < end then
        (if sz = 0 then Diverge
         else case body offset h of
                Return h' \<Rightarrow> forOffsets body (offset + sz) end sz h'
              | Panic \<Rightarrow> Panic
              | Diverge \<Rightarrow> Diverge)
      else Return h)"
  by pat_completeness auto
termination
  by (relation "measure (\<lambda>(body, offset, end, sz, h). end - offset)") auto

declare forOffsets.simps [simp del]

text \<open>\<^verbatim>\<open>for _, x := range xs { body }\<close>\<close>

fun forEach :: "('a \<Rightarrow> heap \<Rightarrow> heap xres) \<Rightarrow> 'a list \<Rightarrow> heap \<Rightarrow> heap xres" where
  "forEach body [] h = Return h"
| "forEach body (x # xs) h =
     (case body x h of
        Return h' \<Rightarrow> forEach body xs h'
      | Panic \<Rightarrow> Panic
      | Diverge \<Rightarrow> Diverge)"

section \<open>Slices\<close>

text \<open>
  \<^verbatim>\<open>normalize\<close> of \<^verbatim>\<open>genSlice\<close>: it returns the two header pointers (which are \<open>l\<close> and
  \<open>r\<close> themselves) and \<open>end\<close>; here it returns \<open>end\<close> and the memory after the swap.
\<close>

definition normalize :: "nat \<Rightarrow> nat \<Rightarrow> nat \<Rightarrow> heap \<Rightarrow> (nat \<times> heap) xres" where
  "normalize sz l r h =
     (case (mem h l, mem h r) of
        (Some (CSlice dl ll cl), Some (CSlice dr lr cr)) \<Rightarrow>
          (let limit = (if lr < ll then lr else ll);
               h' = (if lr > ll
                     then h\<lparr>mem := (mem h)(l \<mapsto> CSlice dr lr cr, r \<mapsto> CSlice dl ll cl)\<rparr>
                     else h)
           in Return (limit * sz, h'))
      | _ \<Rightarrow> Panic)"

text \<open>One iteration of a slice loop: \<^verbatim>\<open>f(hl.Data + offset, hr.Data + offset)\<close>, the
  headers being read through the pointers \<open>l\<close> and \<open>r\<close>.\<close>

definition sliceBody :: "(nat \<Rightarrow> nat \<Rightarrow> heap \<Rightarrow> heap xres) \<Rightarrow> nat \<Rightarrow> nat \<Rightarrow> nat \<Rightarrow> heap \<Rightarrow> heap xres" where
  "sliceBody f l r offset h =
     (case (mem h l, mem h r) of
        (Some (CSlice dl ll cl), Some (CSlice dr lr cr)) \<Rightarrow> f (dl + offset) (dr + offset) h
      | _ \<Rightarrow> Panic)"

definition sliceMerge :: "(nat \<Rightarrow> nat \<Rightarrow> heap \<Rightarrow> heap xres) \<Rightarrow> nat \<Rightarrow> nat \<Rightarrow> nat \<Rightarrow> heap \<Rightarrow> heap xres" where
  "sliceMerge f sz l r h =
     (case normalize sz l r h of
        Return (end, h') \<Rightarrow> forOffsets (sliceBody f l r) 0 end sz h'
      | Panic \<Rightarrow> Panic
      | Diverge \<Rightarrow> Diverge)"

definition arrayMerge :: "(nat \<Rightarrow> nat \<Rightarrow> heap \<Rightarrow> heap xres) \<Rightarrow> nat \<Rightarrow> nat \<Rightarrow> nat \<Rightarrow> nat \<Rightarrow> heap \<Rightarrow> heap xres" where
  "arrayMerge f end sz l r h =
     forOffsets (\<lambda>offset. f (fieldByOffset l offset) (fieldByOffset r offset)) 0 end sz h"

section \<open>Pointers\<close>

definition ptrMerge :: "(nat \<Rightarrow> nat \<Rightarrow> heap \<Rightarrow> heap xres) \<Rightarrow> nat \<Rightarrow> nat \<Rightarrow> heap \<Rightarrow> heap xres" where
  "ptrMerge f l r h =
     (case (mem h l, mem h r) of
        (Some (CPtr il), Some (CPtr ir)) \<Rightarrow>
          if il = 0 then Return (h\<lparr>mem := (mem h)(l \<mapsto> CPtr ir, r \<mapsto> CPtr 0)\<rparr>)
          else if ir = 0 then Return h
          else f il ir h
      | _ \<Rightarrow> Panic)"

section \<open>Structs\<close>

definition structMerge :: "fops \<Rightarrow> (plan \<Rightarrow> nat \<Rightarrow> nat \<Rightarrow> heap \<Rightarrow> heap xres)
    \<Rightarrow> (kind \<times> nat list) list \<Rightarrow> (nat \<times> plan) list \<Rightarrow> nat \<Rightarrow> nat \<Rightarrow> heap \<Rightarrow> heap xres" where
  "structMerge F call tbl ofs l r h =
     (case forEach (\<lambda>(k, offsets).
              forEach (\<lambda>offset. primMerge F k (fieldByOffset l offset) (fieldByOffset r offset)) offsets)
            tbl h of
        Return h' \<Rightarrow>
          forEach (\<lambda>(offset, f). call f (fieldByOffset l offset) (fieldByOffset r offset)) ofs h'
      | Panic \<Rightarrow> Panic
      | Diverge \<Rightarrow> Diverge)"

section \<open>Maps\<close>

text \<open>
  The map closure goes through \<^verbatim>\<open>reflect\<close>: \<^verbatim>\<open>MapKeys\<close>, \<^verbatim>\<open>MapIndex\<close> (the zero Value,
  here \<open>None\<close>, for a missing key or a nil map) and \<^verbatim>\<open>SetMapIndex\<close> (which panics on a
  nil map, and deletes the key when given the zero Value). \<^verbatim>\<open>MapKeys\<close> returns the
  keys in an unspecified order; here it is the order of the entry list.
\<close>

definition MapKeys :: "heap \<Rightarrow> nat \<Rightarrow> mkey list" where
  "MapKeys h m = (if m = 0 then [] else case maps h m of None \<Rightarrow> [] | Some es \<Rightarrow> map fst es)"

definition MapIndex :: "heap \<Rightarrow> nat \<Rightarrow> mkey \<Rightarrow> chunk option" where
  "MapIndex h m k =
     (if m = 0 then None else case maps h m of None \<Rightarrow> None | Some es \<Rightarrow> map_of es k)"

definition SetMapIndex :: "nat \<Rightarrow> mkey \<Rightarrow> chunk option \<Rightarrow> heap \<Rightarrow> heap xres" where
  "SetMapIndex m k v h =
     (case v of
        None \<Rightarrow>
          (if m = 0 then Return h
           else case maps h m of None \<Rightarrow> Return h
             | Some es \<Rightarrow> Return (h\<lparr>maps := (maps h)(m \<mapsto> AList.delete k es)\<rparr>))
      | Some c \<Rightarrow>
          (if m = 0 then Panic
           else case maps h m of None \<Rightarrow> Panic
             | Some es \<Rightarrow> Return (h\<lparr>maps := (maps h)(m \<mapsto> AList.update k c es)\<rparr>)))"

definition writeChunk :: "nat \<Rightarrow> chunk \<Rightarrow> (nat \<rightharpoonup> cell) \<Rightarrow> (nat \<rightharpoonup> cell)" where
  "writeChunk base c m = fold (\<lambda>(off, x) m'. m'(base + off \<mapsto> x)) c m"

fun readChunk :: "(nat \<rightharpoonup> cell) \<Rightarrow> nat \<Rightarrow> nat list \<Rightarrow> chunk option" where
  "readChunk m base [] = Some []"
| "readChunk m base (off # offs) =
     (case m (base + off) of
        None \<Rightarrow> None
      | Some x \<Rightarrow> map_option (\<lambda>c. (off, x) # c) (readChunk m base offs))"

text \<open>
  One iteration of \<^verbatim>\<open>for _, rk := range rks\<close>. \<^verbatim>\<open>vali.Interface\<close> boxes the two
  values: whether the data word of the interface points to a copy of the value, or is
  the value itself and the closure is given the address of that word
  (\<^verbatim>\<open>valNeedsIndir\<close>), the closure \<open>f\<close> receives the addresses of two fresh locations
  that hold the two values; \<^verbatim>\<open>reflect.ValueOf(lkvi)\<close> then reads the left one back.
\<close>

definition mapBody :: "(nat \<Rightarrow> nat \<Rightarrow> heap \<Rightarrow> heap xres) \<Rightarrow> nat \<Rightarrow> nat \<Rightarrow> nat \<Rightarrow> mkey \<Rightarrow> heap \<Rightarrow> heap xres" where
  "mapBody f sz ml mr rk h =
     (case MapIndex h ml rk of
        None \<Rightarrow> SetMapIndex ml rk (MapIndex h mr rk) h
      | Some lkv \<Rightarrow>
          (case MapIndex h mr rk of
             None \<Rightarrow> Panic
           | Some rkv \<Rightarrow>
               (let tl = brk h; tr = brk h + sz;
                    h1 = h\<lparr>mem := writeChunk tr rkv (writeChunk tl lkv (mem h)),
                           brk := brk h + 2 * sz\<rparr>
                in case f tl tr h1 of
                     Return h2 \<Rightarrow>
                       (case readChunk (mem h2) tl (map fst lkv) of
                          None \<Rightarrow> Panic
                        | Some v \<Rightarrow> SetMapIndex ml rk (Some v) h2)
                   | Panic \<Rightarrow> Panic
                   | Diverge \<Rightarrow> Diverge)))"

text \<open>The closure of \<^verbatim>\<open>genMap\<close>: \<open>l\<close> and \<open>r\<close> point to the two map words; a map word
  is nil or the address of a map object.\<close>

definition mapMerge :: "(nat \<Rightarrow> nat \<Rightarrow> heap \<Rightarrow> heap xres) \<Rightarrow> nat \<Rightarrow> nat \<Rightarrow> nat \<Rightarrow> heap \<Rightarrow> heap xres" where
  "mapMerge f sz l r h =
     (case (mem h l, mem h r) of
        (Some (CPtr ml), Some (CPtr mr)) \<Rightarrow>
          if (ml \<noteq> 0 \<and> ml \<notin> dom (maps h)) \<or> (mr \<noteq> 0 \<and> mr \<notin> dom (maps h))
          then Panic
          else forEach (mapBody f sz ml mr) (MapKeys h mr) h
      | _ \<Rightarrow> Panic)"

section \<open>Running a plan\<close>

text \<open>
  \<open>exec n F S p l r h\<close> calls the closure \<open>p\<close> on the pointers \<open>l\<close> and \<open>r\<close> in memory
  \<open>h\<close>; \<open>S\<close> holds the slots the thunks read, \<open>F\<close> the floating-point unit. The fuel
  \<open>n\<close> bounds the depth of nested closure calls: a value that refers to itself makes
  the Go closure recurse without end, which is \<open>Diverge\<close> for every \<open>n\<close>. Calling a
  nil closure panics.
\<close>

definition callNil :: "nat \<Rightarrow> nat \<Rightarrow> heap \<Rightarrow> heap xres" where
  "callNil l r h = Panic"

primrec exec :: "nat \<Rightarrow> fops \<Rightarrow> plan option list \<Rightarrow> plan \<Rightarrow> nat \<Rightarrow> nat \<Rightarrow> heap \<Rightarrow> heap xres" where
  "exec 0 F S p l r h = Diverge"
| "exec (Suc n) F S p l r h =
     (case p of
        PPrim k \<Rightarrow> primMerge F k l r h
      | PPtr f \<Rightarrow> ptrMerge (exec n F S f) l r h
      | PArrayPrim k end sz \<Rightarrow> arrayMerge (primMerge F k) end sz l r h
      | PArray f end sz \<Rightarrow> arrayMerge (exec n F S f) end sz l r h
      | PSlicePrim k sz \<Rightarrow> sliceMerge (primMerge F k) sz l r h
      | PSlice f sz \<Rightarrow> sliceMerge (exec n F S f) sz l r h
      | PStruct tbl ofs \<Rightarrow> structMerge F (exec n F S) tbl ofs l r h
      | PThunk pf \<Rightarrow>
          (case (if pf < length S then S ! pf else None) of
             None \<Rightarrow> callNil l r h
           | Some f \<Rightarrow> exec n F S f l r h)
      | PMap f indir sz \<Rightarrow>
          mapMerge (case f of None \<Rightarrow> callNil | Some f' \<Rightarrow> exec n F S f') sz l r h)"

section \<open>The closure returned by Gen\<close>

definition check :: "merger \<Rightarrow> iface \<Rightarrow> iface \<Rightarrow> (nat \<times> nat) xres" where
  "check m l r =
     (if ityp l \<noteq> mTyp m \<or> ityp r \<noteq> mTyp m then Panic else Return (idata l, idata r))"

definition invoke :: "nat \<Rightarrow> fops \<Rightarrow> merger \<Rightarrow> iface \<Rightarrow> iface \<Rightarrow> heap \<Rightarrow> heap xres" where
  "invoke n F m l r h =
     (case mF m of
        None \<Rightarrow>
          (case check m l r of Return _ \<Rightarrow> Return h | Panic \<Rightarrow> Panic | Diverge \<Rightarrow> Diverge)
      | Some f \<Rightarrow>
          (case check m l r of
             Return (lp, rp) \<Rightarrow> exec n F (mSlots m) f lp rp h
           | Panic \<Rightarrow> Panic
           | Diverge \<Rightarrow> Diverge))"

text \<open>The accumulators after a recursive call for field \<open>f\<close> returned \<open>g\<close>.\<close>

definition afterSub :: "structField \<Rightarrow> plan option \<Rightarrow> sacc \<Rightarrow> sacc" where
  "afterSub f g a =
     (case g of
        None \<Rightarrow> a\<lparr>skipNextLevel := deleteNext (sfName f) (skipNextLevel a)\<rparr>
      | Some g' \<Rightarrow> a\<lparr>skipNextLevel := deleteNext (sfName f) (skipNextLevel a),
                     offsetFs := offsetFs a @ [(sfOffset f, g')], added := added a + 1\<rparr>)"

section \<open>Notions used to state termination\<close>

text \<open>\<open>settles g r\<close>: from some fuel on, the computation \<open>g\<close> returns \<open>r\<close>.\<close>

definition settles :: "(nat \<Rightarrow> 'a option) \<Rightarrow> 'a \<Rightarrow> bool" where
  "settles g r = (\<exists>N. \<forall>n. N \<le> n \<longrightarrow> g n = Some r)"

text \<open>The key under which \<^verbatim>\<open>gen\<close> files a struct type in \<^verbatim>\<open>structFs\<close>.\<close>

definition structKey :: "rtype \<Rightarrow> string" where
  "structKey v = tPkgPath v @ ''.'' @ tName v"

definition grows :: "gstate \<Rightarrow> gerror + ('a \<times> gstate) \<Rightarrow> bool" where
  "grows st r = (case r of Inl e \<Rightarrow> True | Inr (x, st') \<Rightarrow> dom (structFs st) \<subseteq> dom (structFs st'))"

definition skipSize :: "string list \<Rightarrow> nat" where
  "skipSize ss = sum_list (map (\<lambda>s. Suc (length s)) ss)"

definition nextSize :: "(string \<times> string list) list \<Rightarrow> nat" where
  "nextSize m = sum_list (map (\<lambda>kv. skipSize (snd kv)) m)"

text \<open>
  A descriptor table is guarded when, from every descriptor, following \<^verbatim>\<open>Elem\<close>
  through pointers, arrays, slices and maps reaches a descriptor of another kind:
  every cycle of the type passes through a struct.
\<close>

definition container :: "kind \<Rightarrow> bool" where
  "container k = (k = KPtr \<or> k = KArray \<or> k = KSlice \<or> k = KMap)"

fun chainEnds :: "tenv \<Rightarrow> nat \<Rightarrow> rtype \<Rightarrow> bool" where
  "chainEnds env 0 t = (\<not> container (tKind t))"
| "chainEnds env (Suc n) t = (\<not> container (tKind t) \<or> chainEnds env n (typeOf env (tElem t)))"

definition guarded :: "tenv \<Rightarrow> bool" where
  "guarded env = list_all (chainEnds env (length env)) env"

section \<open>Notions used in the statements, and example types\<close>

text \<open>The segments of a skip path, separated by \<open>>\<close>.\<close>

fun segments :: "string \<Rightarrow> string list" where
  "segments [] = [[]]"
| "segments (c # cs) =
     (if c = CHR ''>'' then [] # segments cs
      else case segments cs of [] \<Rightarrow> [[c]] | s # ss \<Rightarrow> (c # s) # ss)"

definition hasEmptySegment :: "string \<Rightarrow> bool" where
  "hasEmptySegment p = ([] \<in> set (segments p))"

text \<open>
  A skip that names no field at the struct \<open>v\<close>: a single-segment skip that is the name
  of no field, or a multi-segment skip whose first segment is the name of no field that
  the field loop descends into (only of fields it merges by offset, if of any).
\<close>

definition namesNoField :: "tenv \<Rightarrow> rtype \<Rightarrow> string \<Rightarrow> bool" where
  "namesNoField env v s =
     (if CHR ''>'' \<in> set s
      then list_all (\<lambda>f. sfName f \<noteq> takeWhile (\<lambda>c. c \<noteq> CHR ''>'') s
                         \<or> fastKind (tKind (typeOf env (sfType f)))) (tFields v)
      else s \<notin> set (map sfName (tFields v)))"

definition basic :: "kind \<Rightarrow> nat \<Rightarrow> nat \<Rightarrow> rtype" where
  "basic k sz el = \<lparr>tKind = k, tSize = sz, tElem = el, tLen = 0, tFields = [],
     tPkgPath = [], tName = []\<rparr>"

definition structT :: "string \<Rightarrow> string \<Rightarrow> nat \<Rightarrow> structField list \<Rightarrow> rtype" where
  "structT pkg name sz fs = \<lparr>tKind = KStruct, tSize = sz, tElem = 0, tLen = 0, tFields = fs,
     tPkgPath = pkg, tName = name\<rparr>"

definition fld :: "string \<Rightarrow> nat \<Rightarrow> nat \<Rightarrow> structField" where
  "fld name t off = \<lparr>sfName = name, sfType = t, sfOffset = off\<rparr>"

text \<open>\<^verbatim>\<open>type T struct { Foo []int8; N int8 }\<close>, and \<^verbatim>\<open>*T\<close> at index 3.\<close>

definition envFoo :: tenv where
  "envFoo = [basic KInt8 1 0, basic KSlice 24 0,
     structT ''p'' ''T'' 32 [fld ''Foo'' 1 0, fld ''N'' 0 24],
     basic KPtr 8 2]"

text \<open>\<^verbatim>\<open>type T struct { Foo *int8; N int8 }\<close>, and \<^verbatim>\<open>*T\<close> at index 3.\<close>

definition envFooPtr :: tenv where
  "envFooPtr = [basic KInt8 1 0, basic KPtr 8 0,
     structT ''p'' ''T'' 16 [fld ''Foo'' 1 0, fld ''N'' 0 8],
     basic KPtr 8 2]"

text \<open>\<^verbatim>\<open>type Node struct { next *Node; v int32 }\<close>, and \<^verbatim>\<open>*Node\<close> at index 1.\<close>

definition envNode :: tenv where
  "envNode = [basic KInt32 4 0, basic KPtr 8 2,
     structT ''p'' ''Node'' 16 [fld ''next'' 1 0, fld ''v'' 0 8]]"

text \<open>\<^verbatim>\<open>type S []S\<close> and \<^verbatim>\<open>type R struct { s S }\<close>, and \<^verbatim>\<open>*R\<close> at index 2.\<close>

definition envRec :: tenv where
  "envRec = [basic KSlice 24 0, structT ''p'' ''R'' 24 [fld ''s'' 0 0], basic KPtr 8 1]"

text \<open>
  Two struct types of the same package path and name (\<^verbatim>\<open>type T struct { A int8 }\<close> and,
  declared in another scope of package \<^verbatim>\<open>p\<close>, \<^verbatim>\<open>type T struct { B, C int64 }\<close>), both
  fields of \<^verbatim>\<open>type Root struct { x T; y T }\<close>; \<^verbatim>\<open>*Root\<close> at index 5.
\<close>

definition envDup :: tenv where
  "envDup = [basic KInt8 1 0, basic KInt64 8 0,
     structT ''p'' ''T'' 1 [fld ''A'' 0 0],
     structT ''p'' ''T'' 16 [fld ''B'' 1 0, fld ''C'' 1 8],
     structT ''p'' ''Root'' 24 [fld ''x'' 2 0, fld ''y'' 3 8],
     basic KPtr 8 4]"

text \<open>\<^verbatim>\<open>type P struct { p *int32 }\<close>: \<^verbatim>\<open>*int32\<close> at index 1, \<^verbatim>\<open>*P\<close> at index 3.\<close>

definition envPtr :: tenv where
  "envPtr = [basic KInt32 4 0, basic KPtr 8 0, structT ''p'' ''P'' 8 [fld ''p'' 1 0],
     basic KPtr 8 2]"

text \<open>A memory for scenario D: the left slot (address 100) is nil, the right slot
  (200) points to a 6 (at 300), a third slot (400) points to a 5 (at 500).\<close>

definition heapD :: heap where
  "heapD = \<lparr>mem = [100 \<mapsto> CPtr 0, 200 \<mapsto> CPtr 300, 300 \<mapsto> CNum 6,
                   400 \<mapsto> CPtr 500, 500 \<mapsto> CNum 5],
            maps = Map.empty, brk = 1000\<rparr>"

text \<open>Two values of \<^verbatim>\<open>Root\<close> of \<open>envDup\<close>: the left at 100 with \<open>x.A = 1\<close>,
  \<open>y.B = 1\<close>, \<open>y.C = 2\<close>; the right at 200 with \<open>x.A = 1\<close>, \<open>y.B = 10\<close>, \<open>y.C = 20\<close>.\<close>

definition heapDup :: heap where
  "heapDup = \<lparr>mem = [100 \<mapsto> CNum 1, 108 \<mapsto> CNum 1, 116 \<mapsto> CNum 2,
                     200 \<mapsto> CNum 1, 208 \<mapsto> CNum 10, 216 \<mapsto> CNum 20],
              maps = Map.empty, brk = 1000\<rparr>"

text \<open>The cell at an address after a call, if the call returned.\<close>

definition cellAfter :: "heap xres \<Rightarrow> nat \<Rightarrow> cell option xres" where
  "cellAfter x a = (case x of Return h \<Rightarrow> Return (mem h a) | Panic \<Rightarrow> Panic | Diverge \<Rightarrow> Diverge)"

text \<open>The two arguments of the examples, and a nil pointer of the right type.\<close>

definition argL :: "nat \<Rightarrow> iface" where
  "argL t = \<lparr>ityp = Some t, idata = 100\<rparr>"

definition argR :: "nat \<Rightarrow> iface" where
  "argR t = \<lparr>ityp = Some t, idata = 200\<rparr>"

definition argNil :: "nat \<Rightarrow> iface" where
  "argNil t = \<lparr>ityp = Some t, idata = 0\<rparr>"

text \<open>Two values of \<^verbatim>\<open>T\<close> of \<open>envFoo\<close> with nil slices: left \<open>N = 1\<close>, right \<open>N = 2\<close>.\<close>

definition heapFoo :: heap where
  "heapFoo = \<lparr>mem = [100 \<mapsto> CSlice 0 0 0, 124 \<mapsto> CNum 1, 200 \<mapsto> CSlice 0 0 0, 224 \<mapsto> CNum 2],
              maps = Map.empty, brk = 1000\<rparr>"

section \<open>Notions used to state the effect of the slice closure\<close>

text \<open>The closure a slice plan applies to each pair of elements.\<close>

definition sliceElem :: "nat \<Rightarrow> fops \<Rightarrow> plan option list \<Rightarrow> plan \<Rightarrow> nat \<Rightarrow> nat \<Rightarrow> heap \<Rightarrow> heap xres" where
  "sliceElem k F S p =
     (case p of PSlicePrim kd sz \<Rightarrow> primMerge F kd | PSlice f sz \<Rightarrow> exec k F S f | _ \<Rightarrow> callNil)"








section \<open>Notions used to state the merge of primitive fields\<close>



text \<open>The offset tables of a struct closure as one list, in the order the closure
  walks them, followed by the \<^verbatim>\<open>uintptr\<close> fields among \<^verbatim>\<open>offsetFs\<close>.\<close>

definition flat :: "(kind \<times> nat list) list \<Rightarrow> (kind \<times> nat) list" where
  "flat tbl = concat (map (\<lambda>(k, offs). map (Pair k) offs) tbl)"



text \<open>\<^verbatim>\<open>type A struct { x uint64; y float32; z bool; w uintptr }\<close> at index 4, with the
  values \<open>(1, 2, false, 5)\<close> at 100 and \<open>(7, 8, true, 6)\<close> at 200 (the patterns of the
  floats 2, 8 and 10 are 1073741824, 1090519040 and 1092616192). In \<open>heapNaN\<close> the two
  \<open>y\<close> are NaNs of different payloads.\<close>

definition envA :: tenv where
  "envA = [basic KUint64 8 0, basic KFloat32 4 0, basic KBool 1 0, basic KUintptr 8 0,
     structT ''p'' ''A'' 24 [fld ''x'' 0 0, fld ''y'' 1 8, fld ''z'' 2 12, fld ''w'' 3 16]]"


definition heapNaN :: heap where
  "heapNaN = \<lparr>mem = [100 \<mapsto> CNum 1, 108 \<mapsto> CNum 2143289345, 112 \<mapsto> CBool False, 116 \<mapsto> CNum 5,
                     200 \<mapsto> CNum 7, 208 \<mapsto> CNum 2143289346, 212 \<mapsto> CBool True, 216 \<mapsto> CNum 6],
              maps = Map.empty, brk = 1000\<rparr>"

definition planA :: plan where
  "planA = PStruct (appendOffset KBool 12 (appendOffset KFloat32 8 (appendOffset KUint64 0 emptyPrims)))
     [(16, PPrim KUintptr)]"

text \<open>\<^verbatim>\<open>type M struct { m map[int8]struct{} }\<close> (a set of \<^verbatim>\<open>int8\<close>) at index 3 and \<^verbatim>\<open>*M\<close>
  at index 4. In \<open>heapM\<close> the left value (at 100) holds the set \<open>{1}\<close> and the right
  value (at 200) the set \<open>{1, 2}\<close>.\<close>

definition envM :: tenv where
  "envM = [basic KInt8 1 0, structT [] [] 0 [], basic KMap 8 1,
     structT ''p'' ''M'' 8 [fld ''m'' 2 0], basic KPtr 8 3]"

definition heapM :: heap where
  "heapM = \<lparr>mem = [100 \<mapsto> CPtr 1000, 200 \<mapsto> CPtr 2000],
            maps = [1000 \<mapsto> [([CNum 1], [])], 2000 \<mapsto> [([CNum 1], []), ([CNum 2], [])]],
            brk = 5000\<rparr>"

text \<open>\<^verbatim>\<open>type E struct { m map[K]map[K]int32 }\<close> at index 3 and \<^verbatim>\<open>*E\<close> at index 4. In
  \<open>heapE\<close> (scenario E) the left map is \<open>{1: {11: 1}, 2: {22: 2}}\<close> and the right map
  is \<open>{2: {22: 9}, 3: {33: 3}}\<close>; in \<open>heapNil\<close> the left map is nil.\<close>

definition envE :: tenv where
  "envE = [basic KInt32 4 0, basic KMap 8 0, basic KMap 8 1,
     structT ''p'' ''E'' 8 [fld ''m'' 2 0], basic KPtr 8 3]"

definition heapE :: heap where
  "heapE = \<lparr>mem = [100 \<mapsto> CPtr 1000, 200 \<mapsto> CPtr 2000],
            maps = [1000 \<mapsto> [([CNum 1], [(0, CPtr 1100)]), ([CNum 2], [(0, CPtr 1200)])],
                    1100 \<mapsto> [([CNum 11], [(0, CNum 1)])],
                    1200 \<mapsto> [([CNum 22], [(0, CNum 2)])],
                    2000 \<mapsto> [([CNum 2], [(0, CPtr 2200)]), ([CNum 3], [(0, CPtr 2300)])],
                    2200 \<mapsto> [([CNum 22], [(0, CNum 9)])],
                    2300 \<mapsto> [([CNum 33], [(0, CNum 3)])]],
            brk = 5000\<rparr>"

definition heapNil :: heap where
  "heapNil = \<lparr>mem = [100 \<mapsto> CPtr 0, 200 \<mapsto> CPtr 2000],
              maps = [2000 \<mapsto> [([CNum 2], [(0, CPtr 2200)])],
                      2200 \<mapsto> [([CNum 22], [(0, CNum 9)])]],
              brk = 5000\<rparr>"

definition planE :: plan where
  "planE = PStruct emptyPrims [(0, PMap (Some (PMap (Some (PPrim KInt32)) False 4)) True 8)]"

text \<open>The entries of the map object at an address after a call, if the call returned.\<close>

definition mapAfter :: "heap xres \<Rightarrow> nat \<Rightarrow> (mkey \<times> chunk) list option xres" where
  "mapAfter x a = (case x of Return h \<Rightarrow> Return (maps h a) | Panic \<Rightarrow> Panic | Diverge \<Rightarrow> Diverge)"

text \<open>
  The types and the two values of the test \<^verbatim>\<open>TestGen\<close> (the variant with \<^verbatim>\<open>m map[foo]foo\<close>):
  \<^verbatim>\<open>S\<close> at index 13 and \<^verbatim>\<open>*S\<close> at index 14, \<^verbatim>\<open>sl\<close> at address 1000 and \<^verbatim>\<open>sr\<close> at 2000
  (\<^verbatim>\<open>f2\<close>, a \<^verbatim>\<open>float32\<close>, is 2 in \<^verbatim>\<open>sl\<close>, 8 in \<^verbatim>\<open>sr\<close> and 10 in \<^verbatim>\<open>exp\<close>).
\<close>

definition envT :: tenv where
  "envT = [basic KUint64 8 0, basic KFloat32 4 0, basic KBool 1 0, basic KInt 8 0,
     structT ''p'' ''foo'' 16 [fld ''o'' 3 0, fld ''t'' 3 8],
     basic KSlice 24 4,
     (basic KArray 16 3)\<lparr>tLen := 2\<rparr>,
     basic KPtr 8 3,
     basic KChan 8 3,
     structT ''p'' ''Bar'' 8 [fld ''Baz'' 8 0],
     basic KSlice 24 9,
     basic KMap 8 4,
     structT ''p'' ''foobar'' 32 [fld ''bar'' 10 0, fld ''m'' 11 24],
     structT ''p'' ''S'' 112 [fld ''F1'' 0 0, fld ''f2'' 1 8, fld ''f3'' 0 16, fld ''f4'' 2 24,
        fld ''f5'' 5 32, fld ''f6'' 6 56, fld ''f7'' 7 72, fld ''Foo'' 12 80],
     basic KPtr 8 13]"

definition heapT :: heap where
  "heapT = \<lparr>mem = [1000 \<mapsto> CNum 1, 1008 \<mapsto> CNum 1073741824, 1016 \<mapsto> CNum 3, 1024 \<mapsto> CBool False,
       1032 \<mapsto> CSlice 3000 2 2, 3000 \<mapsto> CNum 2, 3008 \<mapsto> CNum 3, 3016 \<mapsto> CNum 4, 3024 \<mapsto> CNum 5,
       1056 \<mapsto> CNum 1, 1064 \<mapsto> CNum 1, 1072 \<mapsto> CPtr 3100, 3100 \<mapsto> CNum 5,
       1080 \<mapsto> CSlice 3200 1 1, 3200 \<mapsto> CPtr 9999, 1104 \<mapsto> CPtr 4000,
       2000 \<mapsto> CNum 7, 2008 \<mapsto> CNum 1090519040, 2016 \<mapsto> CNum 9, 2024 \<mapsto> CBool True,
       2032 \<mapsto> CSlice 5000 1 1, 5000 \<mapsto> CNum 2, 5008 \<mapsto> CNum 2,
       2056 \<mapsto> CNum 2, 2064 \<mapsto> CNum 2, 2072 \<mapsto> CPtr 5100, 5100 \<mapsto> CNum 6,
       2080 \<mapsto> CSlice 0 0 0, 2104 \<mapsto> CPtr 6000],
     maps = [4000 \<mapsto> [([CNum 2, CNum 2], [(0, CNum 8), (8, CNum 8)]), ([CNum 3, CNum 3], [(0, CNum 9), (8, CNum 9)])],
             6000 \<mapsto> [([CNum 3, CNum 3], [(0, CNum 10), (8, CNum 10)]), ([CNum 4, CNum 4], [(0, CNum 16), (8, CNum 16)])]],
     brk = 10000\<rparr>"

definition planT :: plan where
  "planT = PStruct (appendOffset KFloat32 8 (appendOffset KUint64 16 (appendOffset KBool 24 emptyPrims)))
     [(32, PSlice (PStruct (appendOffset KInt 8 emptyPrims) []) 16),
      (56, PArrayPrim KInt 16 8),
      (72, PPtr (PPrim KInt)),
      (80, PStruct emptyPrims
             [(24, PMap (Some (PStruct (appendOffset KInt 8 (appendOffset KInt 0 emptyPrims)) [])) False 16)])]"

section \<open>Facts about the skip parser\<close>

lemma IndexByte_ge: "- 1 \<le> IndexByte s c"
  by (induction s) (auto simp: Let_def)

lemma IndexByte_none: "(IndexByte s c = - 1) = (c \<notin> set s)"
proof (induction s)
  case Nil show ?case by simp
next
  case (Cons x xs)
  have "- 1 \<le> IndexByte xs c" by (rule IndexByte_ge)
  with Cons show ?case by (auto simp: Let_def)
qed

lemma IndexByte_zero: "(IndexByte s c = 0) = (s \<noteq> [] \<and> hd s = c)"
proof (cases s)
  case Nil then show ?thesis by simp
next
  case (Cons x xs)
  have "- 1 \<le> IndexByte xs c" by (rule IndexByte_ge)
  with Cons show ?thesis by (auto simp: Let_def)
qed

lemma IndexByte_take: "c \<in> set s \<Longrightarrow> take (nat (IndexByte s c)) s = takeWhile (\<lambda>x. x \<noteq> c) s"
proof (induction s)
  case Nil then show ?case by simp
next
  case (Cons x xs)
  show ?case
  proof (cases "x = c")
    case True then show ?thesis by simp
  next
    case False
    with Cons.prems have in_xs: "c \<in> set xs" by simp
    then have "IndexByte xs c \<noteq> - 1" by (simp add: IndexByte_none)
    moreover have "- 1 \<le> IndexByte xs c" by (rule IndexByte_ge)
    ultimately have nn: "0 \<le> IndexByte xs c" by linarith
    then have "nat (IndexByte xs c + 1) = Suc (nat (IndexByte xs c))" by linarith
    with False Cons.IH[OF in_xs] \<open>IndexByte xs c \<noteq> - 1\<close> show ?thesis by (simp add: Let_def)
  qed
qed

lemma IndexByte_bound: "IndexByte s c < int (length s) \<or> s = []"
  by (induction s) (auto simp: Let_def)

lemma parseSkips_leading:
  "s \<in> set ss \<Longrightarrow> s \<noteq> [] \<Longrightarrow> hd s = CHR ''>'' \<Longrightarrow> parseSkips ss my nxt = Inl EEmptyFieldName"
proof (induction ss arbitrary: my nxt)
  case Nil then show ?case by simp
next
  case (Cons x xs)
  show ?case
  proof (cases "x = s")
    case True
    with Cons.prems have "IndexByte x CHR ''>'' = 0" by (simp add: IndexByte_zero)
    then show ?thesis by simp
  next
    case False
    with Cons.prems have "s \<in> set xs" by simp
    from Cons.IH[OF this Cons.prems(2,3)] show ?thesis by (simp add: Let_def)
  qed
qed

lemma genStruct_leading:
  "s \<in> set ss \<Longrightarrow> s \<noteq> [] \<Longrightarrow> hd s = CHR ''>'' \<Longrightarrow> genStruct rec env ss v st = Some (Inl EEmptyFieldName)"
  by (simp add: genStruct_def parseSkips_leading)

lemma gen_struct_leading:
  assumes "tKind v = KStruct" "s \<in> set ss" "s \<noteq> []" "hd s = CHR ''>''"
  shows "gen (Suc n) env um ss v st = Some (Inl EEmptyFieldName)"
proof -
  from assms(2) have "ss \<noteq> []" by auto
  with assms show ?thesis by (simp add: genStruct_leading)
qed

lemma appendNext_keys: "fst ` set (appendNext f s m) = insert f (fst ` set m)"
  by (induction f s m rule: appendNext.induct) auto

lemma parseSkips_keeps:
  "parseSkips ss my nxt = Inr (my', nxt') \<Longrightarrow> set my \<subseteq> set my' \<and> fst ` set nxt \<subseteq> fst ` set nxt'"
proof (induction ss arbitrary: my nxt)
  case Nil then show ?case by simp
next
  case (Cons x xs)
  show ?case
  proof (cases "IndexByte x CHR ''>'' = - 1")
    case True
    with Cons.prems have "parseSkips xs (List.insert x my) nxt = Inr (my', nxt')" by simp
    from Cons.IH[OF this] show ?thesis by auto
  next
    case False
    with Cons.prems have
      "parseSkips xs my (appendNext (take (nat (IndexByte x CHR ''>'')) x)
          (drop (nat (IndexByte x CHR ''>'') + 1) x) nxt) = Inr (my', nxt')"
      by (simp add: Let_def split: if_splits)
    from Cons.IH[OF this] show ?thesis by (auto simp: appendNext_keys)
  qed
qed

lemma parseSkips_single:
  "parseSkips ss my nxt = Inr (my', nxt') \<Longrightarrow> s \<in> set ss \<Longrightarrow> CHR ''>'' \<notin> set s \<Longrightarrow> s \<in> set my'"
proof (induction ss arbitrary: my nxt)
  case Nil then show ?case by simp
next
  case (Cons x xs)
  show ?case
  proof (cases "IndexByte x CHR ''>'' = - 1")
    case True
    with Cons.prems have p: "parseSkips xs (List.insert x my) nxt = Inr (my', nxt')" by simp
    show ?thesis
    proof (cases "x = s")
      case True
      with parseSkips_keeps[OF p] show ?thesis by auto
    next
      case False
      with Cons.prems have "s \<in> set xs" by simp
      from Cons.IH[OF p this Cons.prems(3)] show ?thesis .
    qed
  next
    case False
    with Cons.prems have p:
      "parseSkips xs my (appendNext (take (nat (IndexByte x CHR ''>'')) x)
          (drop (nat (IndexByte x CHR ''>'') + 1) x) nxt) = Inr (my', nxt')"
      by (simp add: Let_def split: if_splits)
    from False Cons.prems(3) have "x \<noteq> s" by (auto simp: IndexByte_none)
    with Cons.prems have "s \<in> set xs" by simp
    from Cons.IH[OF p this Cons.prems(3)] show ?thesis .
  qed
qed

lemma parseSkips_multi:
  "parseSkips ss my nxt = Inr (my', nxt') \<Longrightarrow> s \<in> set ss \<Longrightarrow> CHR ''>'' \<in> set s
     \<Longrightarrow> takeWhile (\<lambda>c. c \<noteq> CHR ''>'') s \<in> fst ` set nxt'"
proof (induction ss arbitrary: my nxt)
  case Nil then show ?case by simp
next
  case (Cons x xs)
  show ?case
  proof (cases "IndexByte x CHR ''>'' = - 1")
    case True
    with Cons.prems have p: "parseSkips xs (List.insert x my) nxt = Inr (my', nxt')" by simp
    from True Cons.prems(3) have "x \<noteq> s" by (auto simp: IndexByte_none)
    with Cons.prems have "s \<in> set xs" by simp
    from Cons.IH[OF p this Cons.prems(3)] show ?thesis .
  next
    case False
    with Cons.prems have p:
      "parseSkips xs my (appendNext (take (nat (IndexByte x CHR ''>'')) x)
          (drop (nat (IndexByte x CHR ''>'') + 1) x) nxt) = Inr (my', nxt')"
      by (simp add: Let_def split: if_splits)
    show ?thesis
    proof (cases "x = s")
      case True
      have "take (nat (IndexByte s CHR ''>'')) s = takeWhile (\<lambda>c. c \<noteq> CHR ''>'') s"
        using Cons.prems(3) by (rule IndexByte_take)
      with True parseSkips_keeps[OF p] show ?thesis by (auto simp: appendNext_keys)
    next
      case False
      with Cons.prems have "s \<in> set xs" by simp
      from Cons.IH[OF p this Cons.prems(3)] show ?thesis .
    qed
  qed
qed

lemma structFields_keeps_my:
  "structFields rec env fs a st = Some (Inr (a', st')) \<Longrightarrow> s \<in> set (skipMyLevel a)
     \<Longrightarrow> s \<notin> sfName ` set fs \<Longrightarrow> s \<in> set (skipMyLevel a')"
proof (induction fs arbitrary: a st)
  case Nil then show ?case by simp
next
  case (Cons f fs)
  from Cons.prems(3) have ne: "sfName f \<noteq> s" and nin: "s \<notin> sfName ` set fs" by auto
  show ?case
  proof (cases "sfName f \<in> set (skipMyLevel a)")
    case True
    with Cons.prems(1) have
      "structFields rec env fs (a\<lparr>skipMyLevel := removeAll (sfName f) (skipMyLevel a)\<rparr>) st = Some (Inr (a', st'))"
      by simp
    from Cons.IH[OF this _ nin] ne Cons.prems(2) show ?thesis by simp
  next
    case False
    show ?thesis
    proof (cases "fastKind (tKind (typeOf env (sfType f)))")
      case True
      with False Cons.prems(1) have
        "structFields rec env fs (a\<lparr>prims := appendOffset (tKind (typeOf env (sfType f))) (sfOffset f) (prims a),
            added := added a + 1\<rparr>) st = Some (Inr (a', st'))"
        by (simp add: Let_def)
      from Cons.IH[OF this _ nin] Cons.prems(2) show ?thesis by simp
    next
      case nf: False
      from False nf Cons.prems(1) obtain g st1 where
        r: "rec (lookupNext (sfName f) (skipNextLevel a)) (typeOf env (sfType f)) st = Some (Inr (g, st1))"
        by (auto simp: Let_def split: option.splits sum.splits)
      show ?thesis
      proof (cases g)
        case None
        with False nf r Cons.prems(1) have
          "structFields rec env fs (a\<lparr>skipNextLevel := deleteNext (sfName f) (skipNextLevel a)\<rparr>) st1 = Some (Inr (a', st'))"
          by (simp add: Let_def)
        from Cons.IH[OF this _ nin] Cons.prems(2) show ?thesis by simp
      next
        case (Some g')
        with False nf r Cons.prems(1) have
          "structFields rec env fs (a\<lparr>skipNextLevel := deleteNext (sfName f) (skipNextLevel a),
              offsetFs := offsetFs a @ [(sfOffset f, g')], added := added a + 1\<rparr>) st1 = Some (Inr (a', st'))"
          by (simp add: Let_def)
        from Cons.IH[OF this _ nin] Cons.prems(2) show ?thesis by simp
      qed
    qed
  qed
qed

lemma structFields_invariant:
  assumes run: "structFields rec env fs a st = Some (Inr (a', st'))"
    and init: "I a st"
    and dropped: "\<And>f a st. f \<in> set fs \<Longrightarrow> I a st \<Longrightarrow> sfName f \<in> set (skipMyLevel a)
        \<Longrightarrow> I (a\<lparr>skipMyLevel := removeAll (sfName f) (skipMyLevel a)\<rparr>) st"
    and prim: "\<And>f a st. f \<in> set fs \<Longrightarrow> I a st \<Longrightarrow> sfName f \<notin> set (skipMyLevel a)
        \<Longrightarrow> fastKind (tKind (typeOf env (sfType f)))
        \<Longrightarrow> I (a\<lparr>prims := appendOffset (tKind (typeOf env (sfType f))) (sfOffset f) (prims a),
                  added := added a + 1\<rparr>) st"
    and sub: "\<And>f a st g st1. f \<in> set fs \<Longrightarrow> I a st \<Longrightarrow> sfName f \<notin> set (skipMyLevel a)
        \<Longrightarrow> \<not> fastKind (tKind (typeOf env (sfType f)))
        \<Longrightarrow> rec (lookupNext (sfName f) (skipNextLevel a)) (typeOf env (sfType f)) st = Some (Inr (g, st1))
        \<Longrightarrow> I (afterSub f g a) st1"
  shows "I a' st'"
  using run init dropped prim sub
proof (induction fs arbitrary: a st)
  case Nil then show ?case by simp
next
  case (Cons f fs)
  have tl_dropped: "\<And>f a st. f \<in> set fs \<Longrightarrow> I a st \<Longrightarrow> sfName f \<in> set (skipMyLevel a)
        \<Longrightarrow> I (a\<lparr>skipMyLevel := removeAll (sfName f) (skipMyLevel a)\<rparr>) st"
    using Cons.prems(3) by simp
  have tl_prim: "\<And>f a st. f \<in> set fs \<Longrightarrow> I a st \<Longrightarrow> sfName f \<notin> set (skipMyLevel a)
        \<Longrightarrow> fastKind (tKind (typeOf env (sfType f)))
        \<Longrightarrow> I (a\<lparr>prims := appendOffset (tKind (typeOf env (sfType f))) (sfOffset f) (prims a),
                  added := added a + 1\<rparr>) st"
    using Cons.prems(4) by simp
  have tl_sub: "\<And>f a st g st1. f \<in> set fs \<Longrightarrow> I a st \<Longrightarrow> sfName f \<notin> set (skipMyLevel a)
        \<Longrightarrow> \<not> fastKind (tKind (typeOf env (sfType f)))
        \<Longrightarrow> rec (lookupNext (sfName f) (skipNextLevel a)) (typeOf env (sfType f)) st = Some (Inr (g, st1))
        \<Longrightarrow> I (afterSub f g a) st1"
    using Cons.prems(5) by simp
  show ?case
  proof (cases "sfName f \<in> set (skipMyLevel a)")
    case True
    with Cons.prems(1) have r:
      "structFields rec env fs (a\<lparr>skipMyLevel := removeAll (sfName f) (skipMyLevel a)\<rparr>) st = Some (Inr (a', st'))"
      by simp
    have "I (a\<lparr>skipMyLevel := removeAll (sfName f) (skipMyLevel a)\<rparr>) st"
      using Cons.prems(3)[of f a st] Cons.prems(2) True by simp
    from Cons.IH[OF r this tl_dropped tl_prim tl_sub] show ?thesis by simp
  next
    case False
    show ?thesis
    proof (cases "fastKind (tKind (typeOf env (sfType f)))")
      case True
      with False Cons.prems(1) have r:
        "structFields rec env fs (a\<lparr>prims := appendOffset (tKind (typeOf env (sfType f))) (sfOffset f) (prims a),
            added := added a + 1\<rparr>) st = Some (Inr (a', st'))"
        by (simp add: Let_def)
      have "I (a\<lparr>prims := appendOffset (tKind (typeOf env (sfType f))) (sfOffset f) (prims a),
            added := added a + 1\<rparr>) st"
        using Cons.prems(4)[of f a st] Cons.prems(2) False True by simp
      from Cons.IH[OF r this tl_dropped tl_prim tl_sub] show ?thesis by simp
    next
      case nf: False
      from False nf Cons.prems(1) obtain g st1 where
        r: "rec (lookupNext (sfName f) (skipNextLevel a)) (typeOf env (sfType f)) st = Some (Inr (g, st1))"
        by (auto simp: Let_def split: option.splits sum.splits)
      with False nf Cons.prems(1) have r2:
        "structFields rec env fs (afterSub f g a) st1 = Some (Inr (a', st'))"
        by (cases g) (simp_all add: Let_def afterSub_def)
      have "I (afterSub f g a) st1"
        using Cons.prems(5)[of f a st g st1] Cons.prems(2) False nf r by simp
      from Cons.IH[OF r2 this tl_dropped tl_prim tl_sub] show ?thesis by simp
    qed
  qed
qed

lemma deleteNext_keys: "fst ` set (deleteNext n m) = fst ` set m - {n}"
  by (auto simp: deleteNext_def)

lemma structFields_keeps_next:
  assumes run: "structFields rec env fs a st = Some (Inr (a', st'))"
    and key: "key \<in> fst ` set (skipNextLevel a)"
    and nodesc: "\<forall>f \<in> set fs. sfName f = key \<longrightarrow> fastKind (tKind (typeOf env (sfType f)))"
  shows "key \<in> fst ` set (skipNextLevel a')"
proof -
  have "(\<lambda>(a::sacc) (st::gstate). key \<in> fst ` set (skipNextLevel a)) a' st'"
  proof (rule structFields_invariant[OF run, where I = "\<lambda>(a::sacc) (st::gstate). key \<in> fst ` set (skipNextLevel a)"])
    show "key \<in> fst ` set (skipNextLevel a)" by (rule key)
  next
    fix f and a :: sacc and st :: gstate assume "key \<in> fst ` set (skipNextLevel a)"
    then show "key \<in> fst ` set (skipNextLevel (a\<lparr>skipMyLevel := removeAll (sfName f) (skipMyLevel a)\<rparr>))"
      by simp
  next
    fix f and a :: sacc and st :: gstate assume "key \<in> fst ` set (skipNextLevel a)"
    then show "key \<in> fst ` set (skipNextLevel (a\<lparr>prims := appendOffset (tKind (typeOf env (sfType f))) (sfOffset f) (prims a),
                  added := added a + 1\<rparr>))" by simp
  next
    fix f and a :: sacc and st :: gstate and g :: "plan option" and st1 :: gstate
    assume "f \<in> set fs" "key \<in> fst ` set (skipNextLevel a)" "\<not> fastKind (tKind (typeOf env (sfType f)))"
    with nodesc have "sfName f \<noteq> key" by auto
    with \<open>key \<in> fst ` set (skipNextLevel a)\<close> show "key \<in> fst ` set (skipNextLevel (afterSub f g a))"
      by (cases g) (auto simp: afterSub_def deleteNext_keys)
  qed
  then show ?thesis .
qed

text \<open>No executor comes out of genStruct when a skip was not consumed.\<close>

lemma genStruct_unconsumed_single:
  assumes "s \<in> set ss" "CHR ''>'' \<notin> set s" "s \<notin> sfName ` set (tFields v)"
  shows "genStruct rec env ss v st \<noteq> Some (Inr x)"
proof
  assume g: "genStruct rec env ss v st = Some (Inr x)"
  then obtain my nxt where p: "parseSkips ss [] [] = Inr (my, nxt)"
    by (auto simp: genStruct_def split: sum.splits)
  with g obtain a' st' where
    run: "structFields rec env (tFields v)
        \<lparr>skipMyLevel = my, skipNextLevel = nxt, prims = emptyPrims, offsetFs = [], added = 0\<rparr> st
      = Some (Inr (a', st'))"
    and fin: "skipMyLevel a' = []"
    by (auto simp: genStruct_def gbind_def split: option.splits sum.splits if_splits)
  from parseSkips_single[OF p assms(1,2)] have "s \<in> set my" .
  with structFields_keeps_my[OF run _ assms(3)] have "s \<in> set (skipMyLevel a')" by simp
  with fin show False by simp
qed

lemma genStruct_unconsumed_multi:
  assumes "s \<in> set ss" "CHR ''>'' \<in> set s"
    and "\<forall>f \<in> set (tFields v). sfName f = takeWhile (\<lambda>c. c \<noteq> CHR ''>'') s
           \<longrightarrow> fastKind (tKind (typeOf env (sfType f)))"
  shows "genStruct rec env ss v st \<noteq> Some (Inr x)"
proof
  assume g: "genStruct rec env ss v st = Some (Inr x)"
  then obtain my nxt where p: "parseSkips ss [] [] = Inr (my, nxt)"
    by (auto simp: genStruct_def split: sum.splits)
  with g obtain a' st' where
    run: "structFields rec env (tFields v)
        \<lparr>skipMyLevel = my, skipNextLevel = nxt, prims = emptyPrims, offsetFs = [], added = 0\<rparr> st
      = Some (Inr (a', st'))"
    and fin: "skipNextLevel a' = []"
    by (auto simp: genStruct_def gbind_def split: option.splits sum.splits if_splits)
  from parseSkips_multi[OF p assms(1,2)] have "takeWhile (\<lambda>c. c \<noteq> CHR ''>'') s \<in> fst ` set nxt" .
  with structFields_keeps_next[OF run _ assms(3)] have
    "takeWhile (\<lambda>c. c \<noteq> CHR ''>'') s \<in> fst ` set (skipNextLevel a')" by simp
  with fin show False by simp
qed

section \<open>Termination of the generator\<close>

lemma settlesI: "(\<And>n. N \<le> n \<Longrightarrow> g n = Some r) \<Longrightarrow> settles g r"
  by (auto simp: settles_def)

lemma settles_step:
  assumes "settles g r" and "\<And>n. g n = Some r \<Longrightarrow> h (Suc n) = Some r'"
  shows "settles h r'"
proof -
  from assms(1) obtain N where N: "\<And>n. N \<le> n \<Longrightarrow> g n = Some r" by (auto simp: settles_def)
  show ?thesis
  proof (rule settlesI[of "Suc N"])
    fix n assume "Suc N \<le> n"
    then obtain m where "n = Suc m" "N \<le> m" by (cases n) auto
    with N[of m] assms(2)[of m] show "h n = Some r'" by simp
  qed
qed

lemma settles_both:
  assumes "settles g1 r1" "settles g2 r2"
  obtains N where "\<And>n. N \<le> n \<Longrightarrow> g1 n = Some r1 \<and> g2 n = Some r2"
proof -
  from assms obtain N1 N2 where
    "\<And>n. N1 \<le> n \<Longrightarrow> g1 n = Some r1" "\<And>n. N2 \<le> n \<Longrightarrow> g2 n = Some r2"
    by (auto simp: settles_def)
  then have "\<And>n. max N1 N2 \<le> n \<Longrightarrow> g1 n = Some r1 \<and> g2 n = Some r2" by simp
  then show ?thesis by (rule that)
qed

lemma settles_unique: "settles g r \<Longrightarrow> settles g r' \<Longrightarrow> r = r'"
  by (erule (1) settles_both) (metis option.inject order_refl)

subsection \<open>The equations of gen by kind\<close>

lemma gen_Ptr:
  "tKind v = KPtr \<Longrightarrow> gen (Suc n) env um ss v st =
     gbind (gen n env um ss (typeOf env (tElem v)) st) (\<lambda>(f, st').
       case f of None \<Rightarrow> Some (Inr (None, st')) | Some f' \<Rightarrow> Some (Inr (Some (PPtr f'), st')))"
  by simp

lemma gen_Array: "tKind v = KArray \<Longrightarrow> gen (Suc n) env um ss v st = genArray (gen n env um ss) env v st"
  by simp

lemma gen_Slice: "tKind v = KSlice \<Longrightarrow> gen (Suc n) env um ss v st = genSlice (gen n env um ss) env v st"
  by simp

lemma gen_Map:
  "tKind v = KMap \<Longrightarrow> gen (Suc n) env um ss v st =
     (if ss \<noteq> [] then Some (Inl (ESkipKind KMap))
      else if \<not> um then Some (Inl EMapDisabled)
      else genMap (gen n env um ss) env v st)"
  by simp

lemma gen_Struct_skips:
  "tKind v = KStruct \<Longrightarrow> ss \<noteq> [] \<Longrightarrow> gen (Suc n) env um ss v st = genStruct (gen n env um) env ss v st"
  by simp

lemma gen_Struct_hit:
  "tKind v = KStruct \<Longrightarrow> structFs st (structKey v) = Some pf
     \<Longrightarrow> gen (Suc n) env um [] v st = Some (Inr (Some (PThunk pf), st))"
  by (simp add: structKey_def)

lemma gen_Struct_miss:
  "tKind v = KStruct \<Longrightarrow> structFs st (structKey v) = None \<Longrightarrow> gen (Suc n) env um [] v st =
     gbind (genStruct (gen n env um) env [] v
              (st\<lparr>structFs := (structFs st)(structKey v \<mapsto> length (slots st)), slots := slots st @ [None]\<rparr>))
       (\<lambda>(f, st2). Some (Inr (f, st2\<lparr>slots := (slots st2)[length (slots st) := f]\<rparr>)))"
  by (simp add: structKey_def Let_def)

lemma gen_simple:
  assumes "\<not> container (tKind v)" "tKind v \<noteq> KStruct"
  shows "\<exists>r. (\<forall>n. gen (Suc n) env um ss v st = Some r) \<and> grows st r"
  using assms by (cases "ss = []"; cases "tKind v") (simp_all add: container_def grows_def)

declare gen.simps(2) [simp del]

lemma settles_both_ex:
  "settles g1 r1 \<Longrightarrow> settles g2 r2 \<Longrightarrow> \<exists>N. \<forall>n. N \<le> n \<longrightarrow> g1 n = Some r1 \<and> g2 n = Some r2"
  by (erule (1) settles_both) blast

subsection \<open>Sizes of the skip lists handed down\<close>

lemma skipSize_Nil [simp]: "skipSize [] = 0"
  by (simp add: skipSize_def)

lemma skipSize_Cons [simp]: "skipSize (s # ss) = Suc (length s) + skipSize ss"
  by (simp add: skipSize_def)

lemma skipSize_append [simp]: "skipSize (xs @ ys) = skipSize xs + skipSize ys"
  by (simp add: skipSize_def)

lemma skipSize_pos: "ss \<noteq> [] \<Longrightarrow> 0 < skipSize ss"
  by (cases ss) simp_all

lemma skipSize_zero: "skipSize ss < Suc 0 \<Longrightarrow> ss = []"
  by (cases ss) simp_all

lemma nextSize_appendNext: "nextSize (appendNext f s m) = nextSize m + Suc (length s)"
  by (induction f s m rule: appendNext.induct) (simp_all add: nextSize_def)

lemma lookupNext_le: "skipSize (lookupNext name m) \<le> nextSize m"
  by (induction m) (auto simp: lookupNext_def nextSize_def)

lemma lookupNext_deleteNext:
  "lookupNext name (deleteNext nm m) = (if name = nm then [] else lookupNext name m)"
  by (induction m) (auto simp: lookupNext_def deleteNext_def)

lemma parseSkips_size:
  "parseSkips ss my nxt = Inr (my', nxt') \<Longrightarrow> nextSize nxt' + length ss \<le> nextSize nxt + skipSize ss"
proof (induction ss arbitrary: my nxt)
  case Nil then show ?case by simp
next
  case (Cons x xs)
  show ?case
  proof (cases "IndexByte x CHR ''>'' = - 1")
    case True
    with Cons.prems have "parseSkips xs (List.insert x my) nxt = Inr (my', nxt')" by simp
    from Cons.IH[OF this] show ?thesis by simp
  next
    case False
    let ?idx = "IndexByte x CHR ''>''"
    from False Cons.prems have pos: "?idx \<noteq> 0" and
      p: "parseSkips xs my (appendNext (take (nat ?idx) x) (drop (nat ?idx + 1) x) nxt) = Inr (my', nxt')"
      by (simp_all add: Let_def split: if_splits)
    have "length (drop (nat ?idx + 1) x) < length x"
      using False by (cases x) (auto simp: IndexByte_none)
    with Cons.IH[OF p] show ?thesis by (simp add: nextSize_appendNext)
  qed
qed

lemma parseSkips_smaller:
  assumes "parseSkips ss [] [] = Inr (my, nxt)"
  shows "skipSize (lookupNext name nxt) < max (Suc 0) (skipSize ss)"
proof (cases ss)
  case Nil
  with assms show ?thesis by (simp add: lookupNext_def)
next
  case (Cons x xs)
  from parseSkips_size[OF assms] have "nextSize nxt + length ss \<le> skipSize ss"
    by (simp add: nextSize_def)
  with Cons have "nextSize nxt < skipSize ss" by simp
  with lookupNext_le[of name nxt] show ?thesis by simp
qed

subsection \<open>The field loop returns when the recursive calls do\<close>

lemma structFields_sub:
  assumes "sfName f \<notin> set (skipMyLevel a)" "\<not> fastKind (tKind (typeOf env (sfType f)))"
    and "rec (lookupNext (sfName f) (skipNextLevel a)) (typeOf env (sfType f)) st = Some (Inr (g, st1))"
  shows "structFields rec env (f # fs) a st = structFields rec env fs (afterSub f g a) st1"
  using assms by (cases g) (simp_all add: Let_def afterSub_def)

lemma structFields_sub_err:
  assumes "sfName f \<notin> set (skipMyLevel a)" "\<not> fastKind (tKind (typeOf env (sfType f)))"
    and "rec (lookupNext (sfName f) (skipNextLevel a)) (typeOf env (sfType f)) st = Some (Inl e)"
  shows "structFields rec env (f # fs) a st = Some (Inl e)"
  using assms by (simp add: Let_def)

lemma skipNextLevel_afterSub:
  "skipNextLevel (afterSub f g a) = deleteNext (sfName f) (skipNextLevel a)"
  by (cases g) (simp_all add: afterSub_def)

lemma structFields_settles:
  assumes sub: "\<And>f sk st'. f \<in> set fs \<Longrightarrow> skipSize sk < B \<Longrightarrow> D \<subseteq> dom (structFs st')
        \<Longrightarrow> \<exists>r. settles (\<lambda>n. gen n env um sk (typeOf env (sfType f)) st') r \<and> grows st' r"
    and small: "\<And>name. skipSize (lookupNext name (skipNextLevel a)) < B"
    and inD: "D \<subseteq> dom (structFs st)"
  shows "\<exists>r. settles (\<lambda>n. structFields (gen n env um) env fs a st) r \<and> grows st r"
  using sub small inD
proof (induction fs arbitrary: a st)
  case Nil
  show ?case by (rule exI[of _ "Inr (a, st)"]) (simp add: settles_def grows_def)
next
  case (Cons f fs)
  have tl_sub: "\<And>f sk st'. f \<in> set fs \<Longrightarrow> skipSize sk < B \<Longrightarrow> D \<subseteq> dom (structFs st')
        \<Longrightarrow> \<exists>r. settles (\<lambda>n. gen n env um sk (typeOf env (sfType f)) st') r \<and> grows st' r"
    using Cons.prems(1) by simp
  show ?case
  proof (cases "sfName f \<in> set (skipMyLevel a)")
    case True
    have "\<exists>r. settles (\<lambda>n. structFields (gen n env um) env fs
              (a\<lparr>skipMyLevel := removeAll (sfName f) (skipMyLevel a)\<rparr>) st) r \<and> grows st r"
      using Cons.prems(2,3) by (intro Cons.IH[OF tl_sub]) simp_all
    with True show ?thesis by simp
  next
    case False
    show ?thesis
    proof (cases "fastKind (tKind (typeOf env (sfType f)))")
      case True
      have "\<exists>r. settles (\<lambda>n. structFields (gen n env um) env fs
              (a\<lparr>prims := appendOffset (tKind (typeOf env (sfType f))) (sfOffset f) (prims a),
                 added := added a + 1\<rparr>) st) r \<and> grows st r"
        using Cons.prems(2,3) by (intro Cons.IH[OF tl_sub]) simp_all
      with False True show ?thesis by (simp add: Let_def)
    next
      case nf: False
      let ?sk = "lookupNext (sfName f) (skipNextLevel a)"
      let ?ft = "typeOf env (sfType f)"
      from Cons.prems(1)[of f ?sk st] Cons.prems(2,3) obtain r1 where
        s1: "settles (\<lambda>n. gen n env um ?sk ?ft st) r1" and g1: "grows st r1"
        by auto
      show ?thesis
      proof (cases r1)
        case (Inl e)
        from s1 obtain N where N: "\<And>n. N \<le> n \<Longrightarrow> gen n env um ?sk ?ft st = Some (Inl e)"
          by (auto simp: settles_def Inl)
        have "settles (\<lambda>n. structFields (gen n env um) env (f # fs) a st) (Inl e)"
        proof (rule settlesI[of N])
          fix n assume "N \<le> n"
          from structFields_sub_err[where rec = "gen n env um", OF False nf N[OF this]]
          show "structFields (gen n env um) env (f # fs) a st = Some (Inl e)" .
        qed
        then show ?thesis by (auto simp: grows_def)
      next
        case (Inr p)
        obtain g st1 where p: "p = (g, st1)" by (cases p)
        from g1 Inr p have d1: "dom (structFs st) \<subseteq> dom (structFs st1)" by (simp add: grows_def)
        with Cons.prems(3) have inD1: "D \<subseteq> dom (structFs st1)" by blast
        have small1: "\<And>name. skipSize (lookupNext name (skipNextLevel (afterSub f g a))) < B"
        proof -
          fix name
          from Cons.prems(2)[of name] have "0 < B" by simp
          with Cons.prems(2)[of name] show "skipSize (lookupNext name (skipNextLevel (afterSub f g a))) < B"
            by (simp add: skipNextLevel_afterSub lookupNext_deleteNext)
        qed
        from Cons.IH[OF tl_sub small1 inD1] obtain r2 where
          s2: "settles (\<lambda>n. structFields (gen n env um) env fs (afterSub f g a) st1) r2"
          and g2: "grows st1 r2" by auto
        from settles_both_ex[OF s1 s2] obtain N where N: "\<And>n. N \<le> n \<Longrightarrow>
            gen n env um ?sk ?ft st = Some r1 \<and>
            structFields (gen n env um) env fs (afterSub f g a) st1 = Some r2"
          by blast
        have "settles (\<lambda>n. structFields (gen n env um) env (f # fs) a st) r2"
        proof (rule settlesI[of N])
          fix n assume n: "N \<le> n"
          from N[OF n] Inr p have "gen n env um ?sk ?ft st = Some (Inr (g, st1))" by simp
          from structFields_sub[where rec = "gen n env um", OF False nf this] N[OF n]
          show "structFields (gen n env um) env (f # fs) a st = Some r2" by simp
        qed
        moreover from g2 d1 have "grows st r2"
          by (auto simp: grows_def split: sum.splits)
        ultimately show ?thesis by blast
      qed
    qed
  qed
qed

subsection \<open>genStruct returns when the recursive calls do\<close>

lemma genStruct_settles:
  assumes sub: "\<And>f sk st'. f \<in> set (tFields v) \<Longrightarrow> skipSize sk < max (Suc 0) (skipSize ss)
        \<Longrightarrow> dom (structFs st) \<subseteq> dom (structFs st')
        \<Longrightarrow> \<exists>r. settles (\<lambda>n. gen n env um sk (typeOf env (sfType f)) st') r \<and> grows st' r"
  shows "\<exists>r. settles (\<lambda>n. genStruct (gen n env um) env ss v st) r \<and> grows st r"
proof (cases "parseSkips ss [] []")
  case (Inl e)
  then have "\<And>n. genStruct (gen n env um) env ss v st = Some (Inl e)"
    by (simp add: genStruct_def)
  then have "settles (\<lambda>n. genStruct (gen n env um) env ss v st) (Inl e)"
    by (simp add: settles_def)
  then show ?thesis by (auto simp: grows_def)
next
  case (Inr p)
  obtain my nxt where p: "p = (my, nxt)" by (cases p)
  let ?a = "\<lparr>skipMyLevel = my, skipNextLevel = nxt, prims = emptyPrims, offsetFs = [], added = 0\<rparr>"
  have small: "\<And>name. skipSize (lookupNext name (skipNextLevel ?a)) < max (Suc 0) (skipSize ss)"
    using parseSkips_smaller[of ss my nxt] Inr p by simp
  from structFields_settles[where D = "dom (structFs st)" and B = "max (Suc 0) (skipSize ss)"
      and a = ?a and st = st and fs = "tFields v" and env = env and um = um, OF sub small]
  obtain r1 where s1: "settles (\<lambda>n. structFields (gen n env um) env (tFields v) ?a st) r1"
    and g1: "grows st r1" by blast
  from s1 obtain N where N: "\<And>n. N \<le> n \<Longrightarrow> structFields (gen n env um) env (tFields v) ?a st = Some r1"
    by (auto simp: settles_def)
  let ?k = "\<lambda>(a, st'). if skipMyLevel a \<noteq> [] then Some (Inl ESkipMyLevel)
               else if skipNextLevel a \<noteq> [] then Some (Inl ESkipNextLevel)
               else if added a = 0 then Some (Inr (None, st'))
               else Some (Inr (Some (PStruct (prims a) (offsetFs a)), st'))"
  have eq: "\<And>n. N \<le> n \<Longrightarrow> genStruct (gen n env um) env ss v st = gbind (Some r1) ?k"
    using N Inr p by (simp add: genStruct_def)
  have "\<exists>r. gbind (Some r1) ?k = Some r \<and> grows st r"
  proof (cases r1)
    case (Inl e)
    then show ?thesis by (simp add: gbind_def grows_def)
  next
    case (Inr q)
    obtain a b where q: "q = (a, b)" by (cases q)
    with g1 Inr show ?thesis
      by (cases "skipMyLevel a \<noteq> []"; cases "skipNextLevel a \<noteq> []"; cases "added a = 0")
         (simp_all add: gbind_def grows_def)
  qed
  then obtain r where r: "gbind (Some r1) ?k = Some r" and gr: "grows st r" by blast
  from eq r have "settles (\<lambda>n. genStruct (gen n env um) env ss v st) r"
    by (simp add: settles_def) blast
  with gr show ?thesis by blast
qed

subsection \<open>The rank of a descriptor in a guarded table\<close>

lemma typeOf_in: "typeOf env t \<in> set env \<union> {zeroValue}"
  by (simp add: typeOf_def)

lemma guarded_ends: "guarded env \<Longrightarrow> v \<in> set env \<union> {zeroValue} \<Longrightarrow> \<exists>n. chainEnds env n v"
proof -
  assume g: "guarded env" and v: "v \<in> set env \<union> {zeroValue}"
  show ?thesis
  proof (cases "v \<in> set env")
    case True
    with g have "chainEnds env (length env) v" by (simp add: guarded_def list_all_iff)
    then show ?thesis ..
  next
    case False
    with v have "v = zeroValue" by simp
    then have "chainEnds env 0 v" by (simp add: zeroValue_def container_def)
    then show ?thesis ..
  qed
qed

lemma rank_less:
  assumes "guarded env" "v \<in> set env \<union> {zeroValue}" "container (tKind v)"
  shows "(LEAST n. chainEnds env n (typeOf env (tElem v))) < (LEAST n. chainEnds env n v)"
proof -
  from guarded_ends[OF assms(1,2)] have ex: "\<exists>n. chainEnds env n v" .
  let ?m = "LEAST n. chainEnds env n v"
  from ex have m: "chainEnds env ?m v" by (metis LeastI)
  with assms(3) obtain m' where m': "?m = Suc m'" by (cases ?m) auto
  with m assms(3) have "chainEnds env m' (typeOf env (tElem v))" by simp
  then have "(LEAST n. chainEnds env n (typeOf env (tElem v))) \<le> m'" by (rule Least_le)
  with m' show ?thesis by simp
qed

subsection \<open>Pointers, arrays, slices and maps return when the call for the element does\<close>

lemma gres_cases:
  obtains (err) e where "r = Inl e"
  | (nil) st' where "r = Inr (None, st')"
  | (fn) f st' where "r = Inr (Some f, st')"
proof (cases r)
  case (Inl e) then show ?thesis by (rule err)
next
  case (Inr p)
  obtain g st' where "p = (g, st')" by (cases p)
  with Inr show ?thesis by (cases g) (auto intro: nil fn)
qed

lemma container_step:
  assumes c: "container (tKind v)" and g: "grows st r"
  shows "\<exists>r'. (\<forall>n. gen n env um ss (typeOf env (tElem v)) st = Some r
            \<longrightarrow> gen (Suc n) env um ss v st = Some r') \<and> grows st r'"
proof -
  from c consider "tKind v = KPtr" | "tKind v = KArray" | "tKind v = KSlice" | "tKind v = KMap"
    by (auto simp: container_def)
  then show ?thesis
  proof cases
    case 1
    from g show ?thesis
      by (cases r rule: gres_cases) (auto simp: gen_Ptr[OF 1] gbind_def grows_def)
  next
    case 2
    from g show ?thesis
      by (cases r rule: gres_cases; cases "fastKind (tKind (typeOf env (tElem v)))")
         (auto simp: gen_Array[OF 2] genArray_def gbind_def grows_def Let_def)
  next
    case 3
    from g show ?thesis
      by (cases r rule: gres_cases; cases "fastKind (tKind (typeOf env (tElem v)))")
         (auto simp: gen_Slice[OF 3] genSlice_def gbind_def grows_def Let_def)
  next
    case 4
    from g show ?thesis
      by (cases r rule: gres_cases; cases "ss = []"; cases um)
         (auto simp: gen_Map[OF 4] genMap_def gbind_def grows_def Let_def)
  qed
qed

lemma container_settles:
  assumes c: "container (tKind v)"
    and sub: "\<exists>r. settles (\<lambda>n. gen n env um ss (typeOf env (tElem v)) st) r \<and> grows st r"
  shows "\<exists>r. settles (\<lambda>n. gen n env um ss v st) r \<and> grows st r"
proof -
  from sub obtain r where s: "settles (\<lambda>n. gen n env um ss (typeOf env (tElem v)) st) r"
    and g: "grows st r" by blast
  from container_step[OF c g, of env um ss] obtain r' where
    st: "\<And>n. gen n env um ss (typeOf env (tElem v)) st = Some r \<Longrightarrow> gen (Suc n) env um ss v st = Some r'"
    and g': "grows st r'" by blast
  from settles_step[where g = "\<lambda>n. gen n env um ss (typeOf env (tElem v)) st"
      and h = "\<lambda>n. gen n env um ss v st", OF s st]
  have "settles (\<lambda>n. gen n env um ss v st) r'" by simp
  with g' show ?thesis by blast
qed

subsection \<open>The generator returns on every guarded table\<close>

lemma wf_lex3: "wf (less_than <*lex*> less_than <*lex*> less_than)"
  by (intro wf_lex_prod wf_less_than)

lemma gen_settles:
  assumes gd: "guarded env"
  shows "v \<in> set env \<union> {zeroValue} \<Longrightarrow> \<exists>r. settles (\<lambda>n. gen n env um ss v st) r \<and> grows st r"
proof -
  let ?K = "structKey ` (set env \<union> {zeroValue})"
  let ?m = "\<lambda>ss st v. (skipSize ss, card (?K - dom (structFs st)), LEAST n. chainEnds env n v)"
  have finK: "finite ?K" by simp
  have main: "\<And>ss st v. x = ?m ss st v \<Longrightarrow> v \<in> set env \<union> {zeroValue}
      \<Longrightarrow> \<exists>r. settles (\<lambda>n. gen n env um ss v st) r \<and> grows st r" for x
  proof (induction x rule: wf_induct_rule[OF wf_lex3])
    case (1 x)
    note IH = "1.IH" and x = "1.prems"(1) and v = "1.prems"(2)
    show ?case
    proof (cases "container (tKind v)")
      case True
      have "(?m ss st (typeOf env (tElem v)), x) \<in> less_than <*lex*> less_than <*lex*> less_than"
        using rank_less[OF gd v True] x by simp
      from IH[OF this refl typeOf_in] have
        "\<exists>r. settles (\<lambda>n. gen n env um ss (typeOf env (tElem v)) st) r \<and> grows st r" .
      with True show ?thesis by (rule container_settles)
    next
      case nc: False
      show ?thesis
      proof (cases "tKind v = KStruct")
        case False
        from gen_simple[OF nc False, of env um ss st] obtain r where
          r: "\<And>n. gen (Suc n) env um ss v st = Some r" and g: "grows st r" by blast
        have "settles (\<lambda>n. gen n env um ss v st) r"
        proof (rule settlesI[of "Suc 0"])
          fix n assume "Suc 0 \<le> n"
          then obtain k where "n = Suc k" by (cases n) auto
          with r show "gen n env um ss v st = Some r" by simp
        qed
        with g show ?thesis by blast
      next
        case str: True
        show ?thesis
        proof (cases "ss = []")
          case False
          have sub: "\<And>f sk st'. f \<in> set (tFields v) \<Longrightarrow> skipSize sk < max (Suc 0) (skipSize ss)
              \<Longrightarrow> dom (structFs st) \<subseteq> dom (structFs st')
              \<Longrightarrow> \<exists>r. settles (\<lambda>n. gen n env um sk (typeOf env (sfType f)) st') r \<and> grows st' r"
          proof -
            fix f :: structField and sk :: "string list" and st' :: gstate
            assume "skipSize sk < max (Suc 0) (skipSize ss)"
            with skipSize_pos[OF False] have "skipSize sk < skipSize ss" by simp
            then have "(?m sk st' (typeOf env (sfType f)), x) \<in> less_than <*lex*> less_than <*lex*> less_than"
              using x by simp
            from IH[OF this refl typeOf_in]
            show "\<exists>r. settles (\<lambda>n. gen n env um sk (typeOf env (sfType f)) st') r \<and> grows st' r" .
          qed
          from genStruct_settles[OF sub] obtain r where
            s: "settles (\<lambda>n. genStruct (gen n env um) env ss v st) r" and g: "grows st r" by blast
          have "settles (\<lambda>n. gen n env um ss v st) r"
            using settles_step[where g = "\<lambda>n. genStruct (gen n env um) env ss v st"
                and h = "\<lambda>n. gen n env um ss v st", OF s]
            by (simp add: gen_Struct_skips[OF str False])
          with g show ?thesis by blast
        next
          case nos: True
          show ?thesis
          proof (cases "structFs st (structKey v)")
            case (Some pf)
            have "settles (\<lambda>n. gen n env um ss v st) (Inr (Some (PThunk pf), st))"
            proof (rule settlesI[of "Suc 0"])
              fix n assume "Suc 0 \<le> n"
              then obtain k where "n = Suc k" by (cases n) auto
              with gen_Struct_hit[OF str Some] nos
              show "gen n env um ss v st = Some (Inr (Some (PThunk pf), st))" by simp
            qed
            then show ?thesis by (auto simp: grows_def)
          next
            case None
            let ?st1 = "st\<lparr>structFs := (structFs st)(structKey v \<mapsto> length (slots st)),
                           slots := slots st @ [None]\<rparr>"
            have keyK: "structKey v \<in> ?K" using v by blast
            have sub: "\<And>f sk st'. f \<in> set (tFields v) \<Longrightarrow> skipSize sk < max (Suc 0) (skipSize [])
                \<Longrightarrow> dom (structFs ?st1) \<subseteq> dom (structFs st')
                \<Longrightarrow> \<exists>r. settles (\<lambda>n. gen n env um sk (typeOf env (sfType f)) st') r \<and> grows st' r"
            proof -
              fix f :: structField and sk :: "string list" and st' :: gstate
              assume "skipSize sk < max (Suc 0) (skipSize [])"
              then have sk: "sk = []" by (simp add: skipSize_zero)
              assume "dom (structFs ?st1) \<subseteq> dom (structFs st')"
              then have sub1: "insert (structKey v) (dom (structFs st)) \<subseteq> dom (structFs st')" by simp
              have "?K - dom (structFs st') \<subset> ?K - dom (structFs st)"
                using sub1 keyK None by (auto simp: domIff)
              then have "card (?K - dom (structFs st')) < card (?K - dom (structFs st))"
                using finK by (intro psubset_card_mono) auto
              then have "(?m sk st' (typeOf env (sfType f)), x) \<in> less_than <*lex*> less_than <*lex*> less_than"
                using x sk nos by simp
              from IH[OF this refl typeOf_in]
              show "\<exists>r. settles (\<lambda>n. gen n env um sk (typeOf env (sfType f)) st') r \<and> grows st' r" .
            qed
            from genStruct_settles[OF sub] obtain r where
              s: "settles (\<lambda>n. genStruct (gen n env um) env [] v ?st1) r" and g: "grows ?st1 r" by blast
            let ?k = "\<lambda>(f, st2). Some (Inr (f, st2\<lparr>slots := (slots st2)[length (slots st) := f]\<rparr>))"
            have "\<exists>r'. gbind (Some r) ?k = Some r' \<and> grows st r'"
              using g by (cases r rule: gres_cases) (auto simp: gbind_def grows_def)
            then obtain r' where r': "gbind (Some r) ?k = Some r'" and g': "grows st r'" by blast
            have "settles (\<lambda>n. gen n env um ss v st) r'"
              using settles_step[where g = "\<lambda>n. genStruct (gen n env um) env [] v ?st1"
                  and h = "\<lambda>n. gen n env um ss v st" and r' = r', OF s] r' nos
              by (simp add: gen_Struct_miss[OF str None])
            with g' show ?thesis by blast
          qed
        qed
      qed
    qed
  qed
  assume "v \<in> set env \<union> {zeroValue}"
  from main[OF refl this] show ?thesis .
qed

subsection \<open>Gen returns on every guarded table\<close>

lemma Indirect_in: "Indirect env i \<in> set env \<union> {zeroValue}"
  using typeOf_in[of env] by (auto simp: Indirect_def split: option.splits)

lemma Gen_settles:
  assumes "guarded env"
  shows "\<exists>r. settles (\<lambda>n. Gen n env i options) r"
proof (cases "applyOptions options \<lparr>skips = [], unsafeMap = False\<rparr>")
  case (Inl e)
  then have "\<And>n. Gen n env i options = Some (Inl e)" by (simp add: Gen_def)
  then show ?thesis by (auto simp: settles_def)
next
  case (Inr c)
  show ?thesis
  proof (cases "valueKind env i \<noteq> KPtr \<or> tKind (Indirect env i) = KPtr")
    case True
    then have "\<exists>r. \<forall>n. Gen n env i options = Some r"
      using Inr by (auto simp: Gen_def Let_def)
    then show ?thesis by (auto simp: settles_def)
  next
    case False
    let ?st = "\<lparr>structFs = Map.empty, slots = []\<rparr>"
    from gen_settles[OF assms Indirect_in, where um = "unsafeMap c" and ss = "skips c" and st = ?st and i1 = i]
    obtain r where
      s: "settles (\<lambda>n. gen n env (unsafeMap c) (skips c) (Indirect env i) ?st) r" by blast
    then obtain N where N: "\<And>n. N \<le> n \<Longrightarrow> gen n env (unsafeMap c) (skips c) (Indirect env i) ?st = Some r"
      by (auto simp: settles_def)
    let ?k = "\<lambda>(f, st). Some (Inr \<lparr>mTyp = ityp i, mF = f, mSlots = slots st\<rparr>)"
    have eq: "\<And>n. N \<le> n \<Longrightarrow> Gen n env i options = gbind (Some r) ?k"
      using N False Inr by (simp add: Gen_def Let_def)
    have "\<exists>r'. gbind (Some r) ?k = Some r'"
      by (cases r rule: gres_cases) (simp_all add: gbind_def)
    then obtain r' where "gbind (Some r) ?k = Some r'" ..
    with eq have "settles (\<lambda>n. Gen n env i options) r'"
      by (intro settlesI[of N]) simp
    then show ?thesis ..
  qed
qed

lemma guarded_envNode: "guarded envNode"
  by (simp add: guarded_def envNode_def basic_def structT_def container_def typeOf_def
      eval_nat_numeral)

lemma guarded_envFoo: "guarded envFoo"
  by (simp add: guarded_def envFoo_def basic_def structT_def container_def typeOf_def
      eval_nat_numeral)

text \<open>The recursive slice type makes every call of gen start another one.\<close>

lemma gen_envRec_S: "gen n envRec um [] (basic KSlice 24 0) st = None"
proof (induction n arbitrary: st)
  case 0 show ?case by simp
next
  case (Suc n)
  have "typeOf envRec 0 = basic KSlice 24 0" by (simp add: typeOf_def envRec_def)
  with Suc show ?case
    by (simp add: gen_Slice basic_def genSlice_def fastKind_def gbind_def)
qed

lemma gen_envRec_R:
  "gen n envRec um [] (structT ''p'' ''R'' 24 [fld ''s'' 0 0]) \<lparr>structFs = Map.empty, slots = []\<rparr> = None"
proof (cases n)
  case 0 then show ?thesis by simp
next
  case (Suc k)
  have t: "typeOf envRec 0 = basic KSlice 24 0" by (simp add: typeOf_def envRec_def)
  have "\<And>st a. structFields (gen k envRec um) envRec [fld ''s'' 0 0]
          \<lparr>skipMyLevel = [], skipNextLevel = [], prims = emptyPrims, offsetFs = [], added = 0\<rparr> st = None"
    using gen_envRec_S[of k um] by (simp add: fld_def t basic_def fastKind_def lookupNext_def Let_def)
  then have "\<And>st. genStruct (gen k envRec um) envRec [] (structT ''p'' ''R'' 24 [fld ''s'' 0 0]) st = None"
    by (simp add: genStruct_def structT_def gbind_def)
  with Suc show ?thesis
    by (simp add: gen.simps structT_def gbind_def Let_def)
qed

section \<open>Properties of the generator and of the entry point\<close>

text \<open>
  Where the struct table does its work, generation terminates: for every finite table
  of type descriptors in which every cycle passes through a struct (\<open>guarded\<close>), and
  every list of options, Gen returns one and the same result, an executor or an error,
  from some recursion depth on.
\<close>

lemma Gen_returns_on_guarded:
  assumes "guarded env"
  shows "\<exists>N r. \<forall>n. N \<le> n \<longrightarrow> Gen n env i options = Some r"
  using Gen_settles[OF assms, of i options] by (auto simp: settles_def)

lemma Gen_returns_envNode:
  "guarded envNode \<and>
   (\<exists>N r. \<forall>n. N \<le> n \<longrightarrow>
      Gen n envNode \<lparr>ityp = Some 1, idata = 100\<rparr> [SkipField ''next>next>v''] = Some r)"
  using Gen_returns_on_guarded[OF guarded_envNode] guarded_envNode by blast

text \<open>
  C7. Generation does not terminate for every finite self-referential type. Only struct
  types are entered in the table \<^verbatim>\<open>structFs\<close>; a slice, array, pointer or map type is
  taken apart again at each visit. For \<^verbatim>\<open>type S []S\<close>, the field type of the aggregate
  \<^verbatim>\<open>type R struct { s S }\<close>, \<^verbatim>\<open>gen\<close> calls itself on \<^verbatim>\<open>S\<close> without end: whatever the
  recursion depth allowed, \<^verbatim>\<open>Gen(new(R))\<close> does not return.
\<close>

theorem C7_recursive_slice_never_returns:
  "\<forall>n. Gen n envRec \<lparr>ityp = Some 2, idata = 100\<rparr> [] = None"
proof
  fix n
  have "Indirect envRec \<lparr>ityp = Some 2, idata = 100\<rparr> = structT ''p'' ''R'' 24 [fld ''s'' 0 0]"
    by (simp add: Indirect_def typeOf_def envRec_def basic_def)
  moreover have "valueKind envRec \<lparr>ityp = Some 2, idata = 100\<rparr> = KPtr"
    by (simp add: valueKind_def typeOf_def envRec_def basic_def)
  ultimately show "Gen n envRec \<lparr>ityp = Some 2, idata = 100\<rparr> [] = None"
    using gen_envRec_R[of n False] by (simp add: Gen_def structT_def gbind_def)
qed

text \<open>
  The check at the end of \<^verbatim>\<open>genStruct\<close>. Whenever generation reaches a struct \<open>v\<close> with
  a list of active skips of which one names no field there (a single-segment skip that
  names no field of \<open>v\<close>, or a multi-segment skip whose first segment names no field
  that is descended into), the call never returns an executor, whatever the recursion
  depth, and on a guarded table it returns an error. In particular Gen never returns an
  executor, and returns an error on a guarded table, when \<open>v\<close> is the root and the
  skips are the configured ones.
\<close>

lemma struct_skip_without_field_fails:
  assumes str: "tKind v = KStruct" and s: "s \<in> set ss" and un: "namesNoField env v s"
  shows "(\<forall>n x. gen n env um ss v st \<noteq> Some (Inr x)) \<and>
         (guarded env \<and> v \<in> set env \<union> {zeroValue}
            \<longrightarrow> (\<exists>N e. \<forall>n. N \<le> n \<longrightarrow> gen n env um ss v st = Some (Inl e))) \<and>
         (applyOptions options \<lparr>skips = [], unsafeMap = False\<rparr> = Inr \<lparr>skips = ss, unsafeMap = um\<rparr>
            \<and> valueKind env i = KPtr \<and> Indirect env i = v
          \<longrightarrow> (\<forall>n m. Gen n env i options \<noteq> Some (Inr m)) \<and>
              (guarded env \<longrightarrow> (\<exists>N e. \<forall>n. N \<le> n \<longrightarrow> Gen n env i options = Some (Inl e))))"
proof -
  from s have ne: "ss \<noteq> []" by auto
  have never: "\<And>rec st x. genStruct rec env ss v st \<noteq> Some (Inr x)"
  proof (cases "CHR ''>'' \<in> set s")
    case True
    with un have "\<forall>f \<in> set (tFields v). sfName f = takeWhile (\<lambda>c. c \<noteq> CHR ''>'') s
        \<longrightarrow> fastKind (tKind (typeOf env (sfType f)))"
      by (auto simp: namesNoField_def list_all_iff)
    from genStruct_unconsumed_multi[OF s True this]
    show "\<And>rec st x. genStruct rec env ss v st \<noteq> Some (Inr x)" .
  next
    case False
    with un have "s \<notin> sfName ` set (tFields v)" by (simp add: namesNoField_def)
    from genStruct_unconsumed_single[OF s False this]
    show "\<And>rec st x. genStruct rec env ss v st \<noteq> Some (Inr x)" .
  qed
  have noex: "gen n env um ss v st \<noteq> Some (Inr x)" for n x st
  proof (cases n)
    case 0 then show ?thesis by simp
  next
    case (Suc k)
    with never[of "gen k env um" st x] show ?thesis by (simp add: gen_Struct_skips[OF str ne])
  qed
  have err: "\<exists>N e. \<forall>n. N \<le> n \<longrightarrow> gen n env um ss v st = Some (Inl e)"
    if gd: "guarded env" and v: "v \<in> set env \<union> {zeroValue}" for st
  proof -
    from gen_settles[OF gd v, of um ss st] obtain r N where
      N: "\<And>n. N \<le> n \<Longrightarrow> gen n env um ss v st = Some r" by (auto simp: settles_def)
    from N[of N] noex[of N st] obtain e where "r = Inl e" by (cases r) auto
    with N show ?thesis by blast
  qed
  have root: "(\<forall>n m. Gen n env i options \<noteq> Some (Inr m)) \<and>
      (guarded env \<longrightarrow> (\<exists>N e. \<forall>n. N \<le> n \<longrightarrow> Gen n env i options = Some (Inl e)))"
    if a: "applyOptions options \<lparr>skips = [], unsafeMap = False\<rparr> = Inr \<lparr>skips = ss, unsafeMap = um\<rparr>
            \<and> valueKind env i = KPtr \<and> Indirect env i = v"
  proof (intro conjI allI impI)
    fix n m
    let ?st = "\<lparr>structFs = Map.empty, slots = []\<rparr>"
    show "Gen n env i options \<noteq> Some (Inr m)"
    proof
      assume "Gen n env i options = Some (Inr m)"
      with a str obtain f st' where "gen n env um ss v ?st = Some (Inr (f, st'))"
        by (auto simp: Gen_def gbind_def split: option.splits sum.splits)
      with noex[of n ?st] show False by blast
    qed
  next
    assume gd: "guarded env"
    from a Indirect_in[of env i] have v: "v \<in> set env \<union> {zeroValue}" by auto
    from err[OF gd v, of "\<lparr>structFs = Map.empty, slots = []\<rparr>"] obtain N e where
      N: "\<And>n. N \<le> n \<Longrightarrow> gen n env um ss v \<lparr>structFs = Map.empty, slots = []\<rparr> = Some (Inl e)"
      by blast
    have "\<And>n. N \<le> n \<Longrightarrow> Gen n env i options = Some (Inl e)"
      using a str N by (simp add: Gen_def gbind_def)
    then show "\<exists>N e. \<forall>n. N \<le> n \<longrightarrow> Gen n env i options = Some (Inl e)" by blast
  qed
  from noex err root show ?thesis by blast
qed

lemma skip_Bar_fails:
  "namesNoField envFoo (typeOf envFoo 2) ''Bar'' \<and> guarded envFoo \<and>
   Gen 3 envFoo \<lparr>ityp = Some 3, idata = 100\<rparr> [SkipField ''Bar''] = Some (Inl ESkipMyLevel) \<and>
   (\<exists>N e. \<forall>n. N \<le> n \<longrightarrow>
      Gen n envFoo \<lparr>ityp = Some 3, idata = 100\<rparr> [SkipField ''Bar''] = Some (Inl e))"
proof -
  have t: "typeOf envFoo 2 = structT ''p'' ''T'' 32 [fld ''Foo'' 1 0, fld ''N'' 0 24]"
    by (simp add: typeOf_def envFoo_def)
  have un: "namesNoField envFoo (typeOf envFoo 2) ''Bar''"
    by (simp add: t namesNoField_def structT_def fld_def)
  have k: "tKind (typeOf envFoo 2) = KStruct" by (simp add: t structT_def)
  have o: "applyOptions [SkipField ''Bar''] \<lparr>skips = [], unsafeMap = False\<rparr>
      = Inr \<lparr>skips = [''Bar''], unsafeMap = False\<rparr>"
    by (simp add: SkipField_def)
  have p: "valueKind envFoo \<lparr>ityp = Some 3, idata = 100\<rparr> = KPtr"
    by (simp add: valueKind_def typeOf_def envFoo_def basic_def)
  have i: "Indirect envFoo \<lparr>ityp = Some 3, idata = 100\<rparr> = typeOf envFoo 2"
    by (simp add: Indirect_def typeOf_def envFoo_def basic_def)
  have ev: "Gen 3 envFoo \<lparr>ityp = Some 3, idata = 100\<rparr> [SkipField ''Bar''] = Some (Inl ESkipMyLevel)"
    by (simp add: Gen_def SkipField_def valueKind_def Indirect_def typeOf_def envFoo_def basic_def
        structT_def fld_def gbind_def gen.simps genStruct_def genSlice_def fastKind_def
        lookupNext_def deleteNext_def Let_def eval_nat_numeral)
  from struct_skip_without_field_fails[OF k _ un, of "[''Bar'']" False
      "\<lparr>structFs = Map.empty, slots = []\<rparr>" "[SkipField ''Bar'']" "\<lparr>ityp = Some 3, idata = 100\<rparr>"]
    o p i guarded_envFoo un ev
  show ?thesis by simp
qed

text \<open>
  The test for an empty field name in \<^verbatim>\<open>genStruct\<close>: for every skip path with a leading
  \<open>>\<close> among the configured skips and every root that is a pointer to a struct, Gen
  fails with the error "invalid skip: empty field name".
\<close>

lemma leading_separator_fails:
  assumes "applyOptions options \<lparr>skips = [], unsafeMap = False\<rparr> = Inr c"
    and "valueKind env i = KPtr" and "tKind (Indirect env i) = KStruct"
    and "s \<in> set (skips c)" and "s \<noteq> []" and "hd s = CHR ''>''"
  shows "Gen (Suc n) env i options = Some (Inl EEmptyFieldName)"
  using assms gen_struct_leading[OF assms(3-6), of n env "unsafeMap c" "\<lparr>structFs = Map.empty, slots = []\<rparr>"]
  by (simp add: Gen_def gbind_def Let_def)

lemma leading_separator_envFoo:
  "Gen (Suc 2) envFoo \<lparr>ityp = Some 3, idata = 100\<rparr> [SkipField ''>Foo''] = Some (Inl EEmptyFieldName)"
proof -
  have a: "applyOptions [SkipField ''>Foo''] \<lparr>skips = [], unsafeMap = False\<rparr>
      = Inr \<lparr>skips = [''>Foo''], unsafeMap = False\<rparr>"
    by (simp add: SkipField_def)
  have b: "valueKind envFoo \<lparr>ityp = Some 3, idata = 100\<rparr> = KPtr"
    by (simp add: valueKind_def typeOf_def envFoo_def basic_def)
  have c: "tKind (Indirect envFoo \<lparr>ityp = Some 3, idata = 100\<rparr>) = KStruct"
    by (simp add: Indirect_def typeOf_def envFoo_def basic_def structT_def)
  from leading_separator_fails[OF a b c, of "''>Foo''" 2] show ?thesis by simp
qed

text \<open>
  C8. A skip path with an empty segment does not always make generation fail. The
  paths \<open>Foo>>x\<close> and \<open>Foo>\<close> have an empty segment, and for
  \<^verbatim>\<open>struct { Foo []int8; N int8 }\<close> Gen returns an executor for either: what follows the
  first \<open>>\<close> is handed to \<^verbatim>\<open>gen\<close> for the field, whose path for a slice of primitives
  never looks at the skips, and the test \<^verbatim>\<open>len(skip) < idx+1\<close>, written for a trailing
  \<open>>\<close>, never holds.
\<close>

theorem C8_empty_segment_accepted:
  "hasEmptySegment ''Foo>>x'' \<and>
   Gen 3 envFoo \<lparr>ityp = Some 3, idata = 100\<rparr> [SkipField ''Foo>>x'']
     = Some (Inr \<lparr>mTyp = Some 3,
          mF = Some (PStruct (appendOffset KInt8 24 emptyPrims) [(0, PSlicePrim KInt8 1)]),
          mSlots = []\<rparr>) \<and>
   hasEmptySegment ''Foo>'' \<and>
   Gen 3 envFoo \<lparr>ityp = Some 3, idata = 100\<rparr> [SkipField ''Foo>'']
     = Some (Inr \<lparr>mTyp = Some 3,
          mF = Some (PStruct (appendOffset KInt8 24 emptyPrims) [(0, PSlicePrim KInt8 1)]),
          mSlots = []\<rparr>)"
  by (simp add: hasEmptySegment_def Gen_def SkipField_def valueKind_def Indirect_def typeOf_def
      envFoo_def basic_def structT_def fld_def gbind_def gen.simps genStruct_def genSlice_def
      fastKind_def lookupNext_def deleteNext_def Let_def eval_nat_numeral)

text \<open>
  C5. An unconsumed skip does not always make generation fail. In
  \<^verbatim>\<open>struct { Foo []int8; N int8 }\<close> the skip \<open>Foo>x\<close> names a field \<open>x\<close> below \<open>Foo\<close>,
  where there is no field at all; the remainder \<open>x\<close> is handed to \<^verbatim>\<open>gen\<close> for
  \<^verbatim>\<open>[]int8\<close>, and \<^verbatim>\<open>genSlice\<close> returns the closure for a slice of primitives without
  looking at it: Gen returns an executor.
\<close>

theorem C5_skip_below_primitive_slice_accepted:
  "Gen 3 envFoo \<lparr>ityp = Some 3, idata = 100\<rparr> [SkipField ''Foo>x'']
     = Some (Inr \<lparr>mTyp = Some 3,
          mF = Some (PStruct (appendOffset KInt8 24 emptyPrims) [(0, PSlicePrim KInt8 1)]),
          mSlots = []\<rparr>)"
  by (simp add: Gen_def SkipField_def valueKind_def Indirect_def typeOf_def
      envFoo_def basic_def structT_def fld_def gbind_def gen.simps genStruct_def genSlice_def
      fastKind_def lookupNext_def deleteNext_def Let_def eval_nat_numeral)

text \<open>
  The path through a pointer does look at the skips: with \<^verbatim>\<open>Foo *int8\<close> in place of
  \<^verbatim>\<open>Foo []int8\<close> the same two skips are refused ("unable to skip fields on kind int8").
\<close>

lemma skip_below_pointer_refused:
  "Gen 4 envFooPtr \<lparr>ityp = Some 3, idata = 100\<rparr> [SkipField ''Foo>x'']
     = Some (Inl (ESkipKind KInt8)) \<and>
   Gen 4 envFooPtr \<lparr>ityp = Some 3, idata = 100\<rparr> [SkipField ''Foo>>x'']
     = Some (Inl (ESkipKind KInt8)) \<and>
   Gen 4 envFooPtr \<lparr>ityp = Some 3, idata = 100\<rparr> [SkipField ''Foo>'']
     = Some (Inl (ESkipKind KInt8))"
  by (simp add: Gen_def SkipField_def valueKind_def Indirect_def typeOf_def
      envFooPtr_def basic_def structT_def fld_def gbind_def gen.simps genStruct_def genSlice_def
      fastKind_def lookupNext_def deleteNext_def Let_def eval_nat_numeral)

lemma parseSkips_trailing: "parseSkips [''Foo>''] [] [] = Inr ([], [(''Foo'', [''''])])"
  by simp

lemmas gen_numeral = gen.simps(2)[of "pred_numeral k" for k, unfolded numeral_eq_Suc[symmetric]]

lemmas exec_numeral = exec.simps(2)[of "pred_numeral k" for k, unfolded numeral_eq_Suc[symmetric]]

lemmas exec_1 = exec.simps(2)[of 0, unfolded One_nat_def[symmetric]]

lemmas eval_gen = Gen_def valueKind_def Indirect_def typeOf_def basic_def structT_def fld_def
  gbind_def gen.simps genStruct_def genSlice_def genArray_def genMap_def fastKind_def
  lookupNext_def deleteNext_def Let_def gen_numeral SkipField_def SkipFields_def
  WithSlowerMapsUnsafely_def

lemmas eval_fp = fpAdd_def fpNaN_def fpInf_def fpExp_def fpFrac_def fpNeg_def fpInfinity_def
  fpMag_def fpVal_def fpPack_def fpRound_def fpQuiet_def bitLen.simps Let_def

lemmas eval_exec = exec.simps structMerge_def primMerge_def store_def combine_def
  fieldByOffset_def ptrMerge_def sliceMerge_def arrayMerge_def normalize_def sliceBody_def
  wrapS_def wrapU_def invoke_def check_def cellAfter_def emptyPrims_def appendOffset_def
  callNil_def exec_numeral exec_1

text \<open>
  C6 fails on the code. The two struct types named \<open>p.T\<close> are different descriptors
  with the same key; the plan generated for the first is the one the second field is
  given (the thunk to slot 1), and merging with it leaves \<open>y.C\<close> as it was.
\<close>

theorem C6_same_name_shares_plan:
  "typeOf envDup 2 \<noteq> typeOf envDup 3 \<and>
   structKey (typeOf envDup 2) = structKey (typeOf envDup 3) \<and>
   Gen 4 envDup \<lparr>ityp = Some 5, idata = 100\<rparr> []
     = Some (Inr \<lparr>mTyp = Some 5,
          mF = Some (PStruct emptyPrims
                 [(0, PStruct (appendOffset KInt8 0 emptyPrims) []), (8, PThunk 1)]),
          mSlots = [Some (PStruct emptyPrims
                      [(0, PStruct (appendOffset KInt8 0 emptyPrims) []), (8, PThunk 1)]),
                    Some (PStruct (appendOffset KInt8 0 emptyPrims) [])]\<rparr>)"
  by (simp add: envDup_def structKey_def eval_gen)

lemma C6_wrong_merge:
  "cellAfter (invoke 4 stdF \<lparr>mTyp = Some 5,
          mF = Some (PStruct emptyPrims
                 [(0, PStruct (appendOffset KInt8 0 emptyPrims) []), (8, PThunk 1)]),
          mSlots = [Some (PStruct emptyPrims
                      [(0, PStruct (appendOffset KInt8 0 emptyPrims) []), (8, PThunk 1)]),
                    Some (PStruct (appendOffset KInt8 0 emptyPrims) [])]\<rparr>
        \<lparr>ityp = Some 5, idata = 100\<rparr> \<lparr>ityp = Some 5, idata = 200\<rparr> heapDup) 116
     = Return (Some (CNum 2))"
  by (simp add: heapDup_def eval_exec)

lemma Gen_mTyp: "Gen k env i options = Some (Inr m) \<Longrightarrow> mTyp m = ityp i"
  by (auto simp: Gen_def gbind_def Let_def split: sum.splits if_splits option.splits)

text \<open>
  C4 (amended). For every executor returned by Gen: invoking it panics whenever the
  dynamic type of either argument differs from the root type captured at generation.
  The no-op executor (empty plan) panics exactly then, and changes nothing when both
  arguments have the root type. An executor with a plan runs the plan on the two data
  words when both arguments have the root type.
\<close>

theorem C4_type_guard:
  assumes "Gen k env i options = Some (Inr m)"
  shows "(ityp l \<noteq> ityp i \<or> ityp r \<noteq> ityp i \<longrightarrow> invoke n F m l r h = Panic) \<and>
         (mF m = None \<longrightarrow>
            invoke n F m l r h = (if ityp l \<noteq> ityp i \<or> ityp r \<noteq> ityp i then Panic else Return h)) \<and>
         (\<forall>f. mF m = Some f \<and> ityp l = ityp i \<and> ityp r = ityp i \<longrightarrow>
            invoke n F m l r h = exec n F (mSlots m) f (idata l) (idata r) h)"
proof -
  from Gen_mTyp[OF assms] have t: "mTyp m = ityp i" .
  show ?thesis
    by (cases "mF m") (auto simp: invoke_def check_def t)
qed

text \<open>With both fields skipped the plan is empty and the executor only checks types.\<close>

lemma Gen_envFoo_noop:
  "Gen 3 envFoo (argL 3) [SkipFields [''Foo'', ''N'']] = Some (Inr \<lparr>mTyp = Some 3, mF = None, mSlots = []\<rparr>)"
  by (simp add: envFoo_def argL_def eval_gen)

theorem C4_witness:
  "invoke 3 stdF \<lparr>mTyp = Some 3, mF = None, mSlots = []\<rparr> (argL 3) (argR 2) heapFoo = Panic \<and>
   invoke 3 stdF \<lparr>mTyp = Some 3, mF = None, mSlots = []\<rparr> (argL 3) (argR 3) heapFoo = Return heapFoo"
  using C4_type_guard[OF Gen_envFoo_noop, of "argL 3" "argR 2" 3 stdF heapFoo]
    C4_type_guard[OF Gen_envFoo_noop, of "argL 3" "argR 3" 3 stdF heapFoo]
  by (simp add: argL_def argR_def)

text \<open>
  C4 as stated fails: the executor generated for \<^verbatim>\<open>*T\<close> panics on a nil \<^verbatim>\<open>*T\<close>,
  although both arguments have the root type.
\<close>

theorem C4_counterexample:
  "Gen 3 envFoo (argL 3) []
     = Some (Inr \<lparr>mTyp = Some 3,
          mF = Some (PStruct (appendOffset KInt8 24 emptyPrims) [(0, PSlicePrim KInt8 1)]),
          mSlots = [Some (PStruct (appendOffset KInt8 24 emptyPrims) [(0, PSlicePrim KInt8 1)])]\<rparr>) \<and>
   ityp (argNil 3) = Some 3 \<and> ityp (argR 3) = Some 3 \<and>
   invoke 3 stdF \<lparr>mTyp = Some 3,
          mF = Some (PStruct (appendOffset KInt8 24 emptyPrims) [(0, PSlicePrim KInt8 1)]),
          mSlots = [Some (PStruct (appendOffset KInt8 24 emptyPrims) [(0, PSlicePrim KInt8 1)])]\<rparr>
      (argNil 3) (argR 3) heapFoo = Panic"
  by (simp add: envFoo_def argL_def argR_def argNil_def heapFoo_def eval_gen eval_exec)

text \<open>
  C2. For every executor that gen returns for a pointer type (so the plan of the
  element is not empty): the executor is the pointer closure around the plan \<open>f\<close>
  of the element, and on two pointer slots \<open>l\<close> and \<open>r\<close> holding \<open>il\<close> and \<open>ir\<close> it
  moves \<open>ir\<close> into the left slot and sets the right slot to nil when \<open>il\<close> is nil,
  changes nothing when only \<open>ir\<close> is nil, and otherwise runs \<open>f\<close> on the two targets.
\<close>

theorem C2_pointer_executor:
  assumes "tKind v = KPtr" and "gen (Suc n) env um ss v st = Some (Inr (Some p, st'))"
  shows "\<exists>f. p = PPtr f \<and> gen n env um ss (typeOf env (tElem v)) st = Some (Inr (Some f, st')) \<and>
     (\<forall>k F S l r h il ir. mem h l = Some (CPtr il) \<and> mem h r = Some (CPtr ir) \<longrightarrow>
        exec (Suc k) F S p l r h =
          (if il = 0 then Return (h\<lparr>mem := (mem h)(l \<mapsto> CPtr ir, r \<mapsto> CPtr 0)\<rparr>)
           else if ir = 0 then Return h
           else exec k F S f il ir h))"
proof -
  from assms obtain f where p: "p = PPtr f"
    and g: "gen n env um ss (typeOf env (tElem v)) st = Some (Inr (Some f, st'))"
    by (auto simp: gen_Ptr gbind_def split: option.splits sum.splits)
  have "\<forall>k F S l r h il ir. mem h l = Some (CPtr il) \<and> mem h r = Some (CPtr ir) \<longrightarrow>
        exec (Suc k) F S p l r h =
          (if il = 0 then Return (h\<lparr>mem := (mem h)(l \<mapsto> CPtr ir, r \<mapsto> CPtr 0)\<rparr>)
           else if ir = 0 then Return h
           else exec k F S f il ir h)"
    by (simp add: p ptrMerge_def)
  with p g show ?thesis by blast
qed

text \<open>
  Scenario D: the left slot nil and the right slot pointing to 6, the target moves to
  the left and the right slot becomes nil; merging then with a slot that points to 5
  makes the left target 11 and leaves the right slot and its target as they were.
\<close>

theorem C2_witness:
  "cellAfter (exec 2 stdF [] (PPtr (PPrim KInt32)) 100 200 heapD) 100 = Return (Some (CPtr 300)) \<and>
   cellAfter (exec 2 stdF [] (PPtr (PPrim KInt32)) 100 200 heapD) 200 = Return (Some (CPtr 0)) \<and>
   cellAfter (exec 2 stdF [] (PPtr (PPrim KInt32)) 100 400
      (heapD\<lparr>mem := (mem heapD)(100 \<mapsto> CPtr 300, 200 \<mapsto> CPtr 0)\<rparr>)) 300 = Return (Some (CNum 11)) \<and>
   cellAfter (exec 2 stdF [] (PPtr (PPrim KInt32)) 100 400
      (heapD\<lparr>mem := (mem heapD)(100 \<mapsto> CPtr 300, 200 \<mapsto> CPtr 0)\<rparr>)) 400 = Return (Some (CPtr 500)) \<and>
   cellAfter (exec 2 stdF [] (PPtr (PPrim KInt32)) 100 400
      (heapD\<lparr>mem := (mem heapD)(100 \<mapsto> CPtr 300, 200 \<mapsto> CPtr 0)\<rparr>)) 500 = Return (Some (CNum 5))"
proof -
  let ?st = "\<lparr>structFs = Map.empty, slots = []\<rparr>"
  have k: "tKind (typeOf envPtr 1) = KPtr" by (simp add: typeOf_def envPtr_def basic_def)
  have g: "gen (Suc 1) envPtr False [] (typeOf envPtr 1) ?st
      = Some (Inr (Some (PPtr (PPrim KInt32)), ?st))"
    by (simp add: envPtr_def eval_gen)
  from C2_pointer_executor[OF k g] have ex:
    "\<And>k F S l r h il ir. mem h l = Some (CPtr il) \<Longrightarrow> mem h r = Some (CPtr ir) \<Longrightarrow>
        exec (Suc k) F S (PPtr (PPrim KInt32)) l r h =
          (if il = 0 then Return (h\<lparr>mem := (mem h)(l \<mapsto> CPtr ir, r \<mapsto> CPtr 0)\<rparr>)
           else if ir = 0 then Return h
           else exec k F S (PPrim KInt32) il ir h)"
    by auto
  let ?h1 = "heapD\<lparr>mem := (mem heapD)(100 \<mapsto> CPtr 300, 200 \<mapsto> CPtr 0)\<rparr>"
  have e1: "exec (Suc 1) stdF [] (PPtr (PPrim KInt32)) 100 200 heapD = Return ?h1"
    using ex[of heapD 100 0 200 300 1 stdF "[]"] by (simp add: heapD_def)
  have e2: "exec (Suc 1) stdF [] (PPtr (PPrim KInt32)) 100 400 ?h1
      = exec 1 stdF [] (PPrim KInt32) 300 500 ?h1"
    using ex[of ?h1 100 300 400 500 1 stdF "[]"] by (simp add: heapD_def)
  have two: "Suc 1 = 2" by simp
  from e1 e2 show ?thesis
    unfolding two by (simp add: heapD_def eval_exec stdF_def)
qed

section \<open>The slice closure\<close>





declare exec.simps(2) [simp del]










lemmas eval_loop = forOffsets.simps sliceElem_def






section \<open>Structs of primitive fields\<close>






lemma appendOffset_keys [simp]: "map fst (appendOffset k off tbl) = map fst tbl"
  by (induction tbl) (auto simp: appendOffset_def)




lemma flat_emptyPrims [simp]: "flat emptyPrims = []"
  by (simp add: flat_def emptyPrims_def)














text \<open>
  C9 as stated fails: with the NaN of payload 1 in \<open>a.y\<close> and the NaN of payload 2 in
  \<open>b.y\<close>, merging \<open>b\<close> into \<open>a\<close> leaves the first in \<open>a.y\<close>, and merging \<open>a\<close> into
  \<open>b\<close> leaves the second in \<open>b.y\<close>.
\<close>

theorem C9_counterexample:
  "gen 2 envA False [] (typeOf envA 4) \<lparr>structFs = Map.empty, slots = []\<rparr>
     = Some (Inr (Some planA, \<lparr>structFs = [''p.A'' \<mapsto> 0], slots = [Some planA]\<rparr>)) \<and>
   cellAfter (exec 2 stdF [Some planA] planA 100 200 heapNaN) 108 = Return (Some (CNum 2143289345)) \<and>
   cellAfter (exec 2 stdF [Some planA] planA 200 100 heapNaN) 208 = Return (Some (CNum 2143289346))"
  by (simp add: envA_def planA_def eval_gen heapNaN_def eval_exec eval_loop stdF_def eval_fp)

section \<open>The map closure\<close>

lemmas eval_map = mapMerge_def mapBody_def MapKeys_def MapIndex_def SetMapIndex_def
  writeChunk_def mapAfter_def AList.update.simps

text \<open>
  C3 fails on the code. For a map whose values have an empty plan (\<^verbatim>\<open>map[int8]struct{}\<close>)
  gen returns a map closure around the nil value closure, and calling it panics as
  soon as a key of the right map is present in the left map.
\<close>

theorem C3_nil_value_plan_panics:
  "Gen 4 envM (argL 4) [WithSlowerMapsUnsafely]
     = Some (Inr \<lparr>mTyp = Some 4, mF = Some (PStruct emptyPrims [(0, PMap None False 0)]),
                  mSlots = [Some (PStruct emptyPrims [(0, PMap None False 0)]), None]\<rparr>) \<and>
   invoke 4 stdF \<lparr>mTyp = Some 4, mF = Some (PStruct emptyPrims [(0, PMap None False 0)]),
                  mSlots = [Some (PStruct emptyPrims [(0, PMap None False 0)]), None]\<rparr>
     (argL 4) (argR 4) heapM = Panic"
  by (simp add: envM_def heapM_def argL_def argR_def eval_gen eval_exec eval_map)

text \<open>The map closure also panics when the left map is nil and the right map has an
  entry (\<^verbatim>\<open>SetMapIndex\<close> on a nil map).\<close>

lemma C3_nil_left_map_panics:
  "Gen 4 envE (argL 4) [WithSlowerMapsUnsafely]
     = Some (Inr \<lparr>mTyp = Some 4, mF = Some planE, mSlots = [Some planE]\<rparr>) \<and>
   invoke 4 stdF \<lparr>mTyp = Some 4, mF = Some planE, mSlots = [Some planE]\<rparr>
     (argL 4) (argR 4) heapNil = Panic"
  by (simp add: envE_def heapNil_def planE_def argL_def argR_def eval_gen eval_exec eval_map)

text \<open>Scenario E: the left map becomes \<open>{1: {11: 1}, 2: {22: 11}, 3: {33: 3}}\<close>.\<close>

lemma scenario_E:
  "mapAfter (invoke 4 stdF \<lparr>mTyp = Some 4, mF = Some planE, mSlots = [Some planE]\<rparr>
      (argL 4) (argR 4) heapE) 1000
     = Return (Some [([CNum 1], [(0, CPtr 1100)]), ([CNum 2], [(0, CPtr 1200)]),
                     ([CNum 3], [(0, CPtr 2300)])]) \<and>
   mapAfter (invoke 4 stdF \<lparr>mTyp = Some 4, mF = Some planE, mSlots = [Some planE]\<rparr>
      (argL 4) (argR 4) heapE) 1100 = Return (Some [([CNum 11], [(0, CNum 1)])]) \<and>
   mapAfter (invoke 4 stdF \<lparr>mTyp = Some 4, mF = Some planE, mSlots = [Some planE]\<rparr>
      (argL 4) (argR 4) heapE) 1200 = Return (Some [([CNum 22], [(0, CNum 11)])]) \<and>
   mapAfter (invoke 4 stdF \<lparr>mTyp = Some 4, mF = Some planE, mSlots = [Some planE]\<rparr>
      (argL 4) (argR 4) heapE) 2300 = Return (Some [([CNum 33], [(0, CNum 3)])])"
  by (simp add: heapE_def planE_def argL_def argR_def eval_exec eval_map)

section \<open>The test of the repository\<close>

text \<open>
  \<^verbatim>\<open>Gen(&sl, SkipFields("F1", "f5>o", "Foo>bar>Baz"), WithSlowerMapsUnsafely())\<close>
  succeeds, and \<^verbatim>\<open>f(&sl, &sr)\<close> leaves in \<^verbatim>\<open>sl\<close> the value \<^verbatim>\<open>exp\<close> of the test.
\<close>

lemma TestGen_plan:
  "Gen 6 envT \<lparr>ityp = Some 14, idata = 1000\<rparr>
      [SkipFields [''F1'', ''f5>o'', ''Foo>bar>Baz''], WithSlowerMapsUnsafely]
     = Some (Inr \<lparr>mTyp = Some 14, mF = Some planT,
          mSlots = [Some (PStruct (appendOffset KInt 8 (appendOffset KInt 0 emptyPrims)) [])]\<rparr>)"
  by (simp add: envT_def planT_def eval_gen appendOffset_def emptyPrims_def)

lemma TestGen_exp:
  "map (cellAfter (invoke 6 stdF \<lparr>mTyp = Some 14, mF = Some planT,
          mSlots = [Some (PStruct (appendOffset KInt 8 (appendOffset KInt 0 emptyPrims)) [])]\<rparr>
        \<lparr>ityp = Some 14, idata = 1000\<rparr> \<lparr>ityp = Some 14, idata = 2000\<rparr> heapT))
     [1000, 1008, 1016, 1024, 1032, 3000, 3008, 3016, 3024, 1056, 1064, 1072, 3100, 1080, 3200]
   = map (\<lambda>c. Return (Some c))
     [CNum 1, CNum 1092616192, CNum 12, CBool True, CSlice 3000 2 2, CNum 2, CNum 5, CNum 4, CNum 5,
      CNum 3, CNum 3, CPtr 3100, CNum 11, CSlice 3200 1 1, CPtr 9999] \<and>
   mapAfter (invoke 6 stdF \<lparr>mTyp = Some 14, mF = Some planT,
          mSlots = [Some (PStruct (appendOffset KInt 8 (appendOffset KInt 0 emptyPrims)) [])]\<rparr>
        \<lparr>ityp = Some 14, idata = 1000\<rparr> \<lparr>ityp = Some 14, idata = 2000\<rparr> heapT) 4000
   = Return (Some [([CNum 2, CNum 2], [(0, CNum 8), (8, CNum 8)]),
                   ([CNum 3, CNum 3], [(0, CNum 19), (8, CNum 19)]),
                   ([CNum 4, CNum 4], [(0, CNum 16), (8, CNum 16)])])"
  by (simp add: heapT_def planT_def eval_exec eval_loop eval_map stdF_def eval_fp)

end
